theory Spec2Isabelle
  imports Complex_Main "HOL-Library.Word"
begin

section \<open>Strings and numbers of the source language\<close>

text \<open>
  The editor is TypeScript. A string is a sequence of UTF-16 code units, so a character
  is a 16-bit word; a number is a double, modelled by the real it denotes. String
  constants of the source are written through \<open>js\<close>, which maps an ASCII literal to its
  code units.
\<close>

type_synonym jschar = "16 word"
type_synonym jsstring = "jschar list"

definition js :: "string \<Rightarrow> jsstring" where
  "js s = map of_char s"

definition space :: jschar where
  "space = 0x20"

definition dash :: jschar where
  "dash = 0x2D"

text \<open>
  The class \<open>\s\<close> of a regular expression: the WhiteSpace and LineTerminator code
  points of the language standard.
\<close>

definition isWhiteSpace :: "jschar \<Rightarrow> bool" where
  "isWhiteSpace c \<longleftrightarrow>
     c = 0x09 \<or> c = 0x0A \<or> c = 0x0B \<or> c = 0x0C \<or> c = 0x0D \<or> c = 0x20 \<or>
     c = 0xA0 \<or> c = 0x1680 \<or> (0x2000 \<le> c \<and> c \<le> 0x200A) \<or>
     c = 0x2028 \<or> c = 0x2029 \<or> c = 0x202F \<or> c = 0x205F \<or> c = 0x3000 \<or> c = 0xFEFF"

text \<open>\<open>text.split(' ')\<close>: the pieces between single spaces; an empty text gives one empty piece.\<close>

function split :: "jschar \<Rightarrow> jsstring \<Rightarrow> jsstring list" where
  "split c s =
     (case dropWhile (\<lambda>x. x \<noteq> c) s of
        [] \<Rightarrow> [takeWhile (\<lambda>x. x \<noteq> c) s]
      | _ # rest \<Rightarrow> takeWhile (\<lambda>x. x \<noteq> c) s # split c rest)"
  by pat_completeness auto
termination
proof (relation "measure (\<lambda>(c, s). length s)")
  show "wf (measure (\<lambda>(c, s). length s))" by simp
next
  fix c :: jschar and s :: jsstring and x rest
  assume "dropWhile (\<lambda>x. x \<noteq> c) s = x # rest"
  then have "length rest < length (dropWhile (\<lambda>x. x \<noteq> c) s)" by simp
  also have "\<dots> \<le> length s" by (rule length_dropWhile_le)
  finally show "((c, rest), (c, s)) \<in> measure (\<lambda>(c, s). length s)" by simp
qed

declare split.simps [simp del]

text \<open>\<open>lines.join(' ')\<close>.\<close>

fun joinWith :: "jschar \<Rightarrow> jsstring list \<Rightarrow> jsstring" where
  "joinWith c [] = []"
| "joinWith c [l] = l"
| "joinWith c (l # ls) = l @ c # joinWith c ls"

section \<open>The caption's word wrap\<close>

text \<open>
  \<open>wrapText\<close> (the loop of lines 209 to 221). \<open>measureText\<close> is the platform's font
  metric and is a parameter. The loop carries the index \<open>n\<close> of the next word, the
  pending \<open>line\<close> and \<open>currentY\<close>; every \<open>fillText(line, x, currentY)\<close> is one element
  of the result, in drawing order.
\<close>

fun wrapLoop ::
  "(jsstring \<Rightarrow> real) \<Rightarrow> real \<Rightarrow> real \<Rightarrow> jsstring list \<Rightarrow> nat \<Rightarrow> jsstring \<Rightarrow> real
     \<Rightarrow> (jsstring \<times> real) list" where
  "wrapLoop measureText maxWidth lineHeight [] n line currentY = [(line, currentY)]"
| "wrapLoop measureText maxWidth lineHeight (word # rest) n line currentY =
     (let testLine = line @ word @ [space];
          testWidth = measureText testLine
      in if testWidth > maxWidth \<and> n > 0
         then (line, currentY) #
              wrapLoop measureText maxWidth lineHeight rest (n + 1) (word @ [space])
                (currentY + lineHeight)
         else wrapLoop measureText maxWidth lineHeight rest (n + 1) testLine currentY)"

definition wrapText ::
  "(jsstring \<Rightarrow> real) \<Rightarrow> jsstring \<Rightarrow> real \<Rightarrow> real \<Rightarrow> real \<Rightarrow> real
     \<Rightarrow> (jsstring \<times> real \<times> real) list" where
  "wrapText measureText text x y maxWidth lineHeight =
     map (\<lambda>(line, currentY). (line, x, currentY))
       (wrapLoop measureText maxWidth lineHeight (split space text) 0 [] y)"

text \<open>The lines that \<open>wrapText\<close> draws, top to bottom.\<close>

definition wrapLines :: "(jsstring \<Rightarrow> real) \<Rightarrow> real \<Rightarrow> jsstring \<Rightarrow> jsstring list" where
  "wrapLines measureText maxWidth text = map fst (wrapText measureText text 270 580 maxWidth 30)"

text \<open>
  Whitespace collapsing: a text is read as the sequence of its maximal runs of
  non-whitespace characters. \<open>tokensFrom cur s\<close> scans \<open>s\<close> with the token \<open>cur\<close> open.
\<close>

fun tokensFrom :: "jsstring \<Rightarrow> jsstring \<Rightarrow> jsstring list" where
  "tokensFrom cur [] = (if cur = [] then [] else [cur])"
| "tokensFrom cur (c # cs) =
     (if isWhiteSpace c then (if cur = [] then [] else [cur]) @ tokensFrom [] cs
      else tokensFrom (cur @ [c]) cs)"

definition collapsed :: "jsstring \<Rightarrow> jsstring list" where
  "collapsed s = tokensFrom [] s"

text \<open>A line that holds the words \<open>g\<close>: each word followed by one space.\<close>

definition glue :: "jsstring list \<Rightarrow> jsstring" where
  "glue g = concat (map (\<lambda>w. w @ [space]) g)"

text \<open>
  Where a break falls, the word after it did not fit: the line before the break, with the
  first word of the next line added, measures more than the maximum.
\<close>

fun breaksGreedy :: "(jsstring \<Rightarrow> real) \<Rightarrow> real \<Rightarrow> jsstring list list \<Rightarrow> bool" where
  "breaksGreedy measureText maxWidth (g # h # rest) =
     (measureText (glue (g @ [hd h])) > maxWidth \<and> breaksGreedy measureText maxWidth (h # rest))"
| "breaksGreedy measureText maxWidth gs = True"

text \<open>A font metric for examples: every character 12 units wide.\<close>

definition fixedPitch :: "jsstring \<Rightarrow> real" where
  "fixedPitch s = 12 * real (length s)"

definition word40 :: jsstring where
  "word40 = js ''aaaaaaaaaaaaaaaaaaaaaaaaaaaaaaaaaaaaaaaa''"


section \<open>The frame renderer\<close>

text \<open>
  A frame is the list of the drawing calls that \<open>drawVisualizer\<close> makes on the 2D
  context, in order; each call carries the context state it is drawn with (fill style,
  font, shadow blur, transform). Later calls paint over earlier ones.
\<close>

datatype paint =
    Css string
  | LinearGradient real real real real "(real \<times> string) list"
  | Rgba real real real real
  | Hsl real

datatype draw_cmd =
    FillRect paint real real real real
      \<comment> \<open>fillStyle; x, y, width, height\<close>
  | DrawImage jsstring real real real real real real real real
      \<comment> \<open>image source; sx, sy, sWidth, sHeight, dx, dy, dWidth, dHeight\<close>
  | FillText string paint real jsstring real real
      \<comment> \<open>font, fillStyle, shadowBlur; text, x, y (textAlign center)\<close>
  | FillRectTurned paint real real real real real real real
      \<comment> \<open>fillStyle; translation x, y and rotation in degrees; x, y, width, height\<close>
  | StrokeCircle string real real real real
      \<comment> \<open>strokeStyle, lineWidth; centre x, y and radius of the full arc\<close>

definition CANVAS_WIDTH :: real where
  "CANVAS_WIDTH = 540"

definition CANVAS_HEIGHT :: real where
  "CANVAS_HEIGHT = 960"

record songData =
  url :: "jsstring option"
  name :: jsstring

record visualData =
  backgroundImage :: "jsstring option"
  caption :: jsstring

text \<open>
  What the platform supplies to a frame: the font metric of \<open>measureText\<close>, and for an
  image source whether a fresh \<open>Image\<close> of it is \<open>complete\<close> at once, with its width
  and height. The image is taken to decode; a broken image is outside the model.
\<close>

record canvasPlatform =
  measureText :: "jsstring \<Rightarrow> real"
  imageComplete :: "jsstring \<Rightarrow> (real \<times> real) option"

text \<open>
  \<open>drawImageCover\<close>. With a width or height of 0 the ratio is infinite, an argument of
  \<open>drawImage\<close> is not finite, and \<open>drawImage\<close> returns without drawing.
\<close>

definition drawImageCover :: "jsstring \<Rightarrow> real \<Rightarrow> real \<Rightarrow> real \<Rightarrow> real \<Rightarrow> draw_cmd list" where
  "drawImageCover img imgWidth imgHeight w h =
     (if imgWidth = 0 \<or> imgHeight = 0 then []
      else let ratio = max (w / imgWidth) (h / imgHeight);
               centerShift_x = (w - imgWidth * ratio) / 2;
               centerShift_y = (h - imgHeight * ratio) / 2
           in [DrawImage img 0 0 imgWidth imgHeight centerShift_x centerShift_y
                 (imgWidth * ratio) (imgHeight * ratio)])"

definition drawBackground :: "canvasPlatform \<Rightarrow> visualData \<Rightarrow> draw_cmd list" where
  "drawBackground pf visualData =
     [FillRect (Css ''#000'') 0 0 CANVAS_WIDTH CANVAS_HEIGHT] @
     (if backgroundImage visualData \<noteq> None \<and> backgroundImage visualData \<noteq> Some []
      then (case imageComplete pf (the (backgroundImage visualData)) of
              Some (imgWidth, imgHeight) \<Rightarrow>
                drawImageCover (the (backgroundImage visualData)) imgWidth imgHeight
                  CANVAS_WIDTH CANVAS_HEIGHT
            | None \<Rightarrow> [])
      else [FillRect
              (LinearGradient 0 0 0 CANVAS_HEIGHT [(0, ''#1e293b''), (1, ''#0f172a'')])
              0 0 CANVAS_WIDTH CANVAS_HEIGHT]) @
     [FillRect (Css ''rgba(0, 0, 0, 0.5)'') 0 0 CANVAS_WIDTH CANVAS_HEIGHT]"

definition titleText :: "songData \<Rightarrow> draw_cmd" where
  "titleText songData =
     FillText ''bold 36px Inter'' (Css ''#ffffff'') 10 (name songData)
       (CANVAS_WIDTH / 2) (CANVAS_HEIGHT / 2 - 80)"

definition captionLine :: "jsstring \<times> real \<times> real \<Rightarrow> draw_cmd" where
  "captionLine = (\<lambda>(line, x, y). FillText ''22px Inter'' (Css ''#e2e8f0'') 10 line x y)"

definition drawText :: "canvasPlatform \<Rightarrow> songData \<Rightarrow> visualData \<Rightarrow> draw_cmd list" where
  "drawText pf songData visualData =
     titleText songData #
     (if caption visualData \<noteq> []
      then (let maxWidth = CANVAS_WIDTH - 60
            in map captionLine
                 (wrapText (measureText pf) (caption visualData)
                    (CANVAS_WIDTH / 2) (CANVAS_HEIGHT / 2 + 100) maxWidth 30))
      else [])"

text \<open>
  \<open>drawBars\<close>: the loop over \<open>i\<close> carries \<open>x\<close>. \<open>dataArray\<close> is a \<open>Uint8Array\<close>;
  \<open>drawVisualizer\<close> passes its length as \<open>bufferLength\<close>, so every index read is in range.
\<close>

fun drawBarsFrom :: "8 word list \<Rightarrow> nat \<Rightarrow> real \<Rightarrow> real \<Rightarrow> nat list \<Rightarrow> draw_cmd list" where
  "drawBarsFrom dataArray bufferLength barWidth x [] = []"
| "drawBarsFrom dataArray bufferLength barWidth x (i # is) =
     (let barHeight = real (unat (dataArray ! i)) * 1.5;
          r = barHeight + (25 * (real i / real bufferLength));
          g = 250 * (real i / real bufferLength);
          b = 50
      in FillRect (Rgba r g b 0.9) x (CANVAS_HEIGHT - barHeight - 120) barWidth barHeight #
         drawBarsFrom dataArray bufferLength barWidth (x + barWidth + 1) is)"

definition drawBars :: "8 word list \<Rightarrow> nat \<Rightarrow> draw_cmd list" where
  "drawBars dataArray bufferLength =
     (let barWidth = (CANVAS_WIDTH / real bufferLength) * 2.5
      in drawBarsFrom dataArray bufferLength barWidth 0 [0..<bufferLength])"

text \<open>
  \<open>drawCircle\<close>: the context is translated to the centre and turned by \<open>step\<close> degrees
  before each tick, so tick \<open>i\<close> is drawn turned by \<open>(i + 1) * step\<close>. After
  \<open>restore\<close> the ring is stroked.
\<close>

definition circleTick :: "8 word list \<Rightarrow> nat \<Rightarrow> nat \<Rightarrow> draw_cmd" where
  "circleTick dataArray bufferLength i =
     (let cx = CANVAS_WIDTH / 2; cy = CANVAS_HEIGHT / 2; radius = 150;
          segments = 120; step = 360 / segments;
          dataIndex = nat \<lfloor>real i * (real bufferLength / 2) / segments\<rfloor>;
          v = real (unat (dataArray ! dataIndex));
          barHeight = v * 0.8;
          hue = real i * 3
      in FillRectTurned (Hsl hue) cx cy (real (i + 1) * step) 0 radius 4 barHeight)"

definition centerCircle :: draw_cmd where
  "centerCircle = StrokeCircle ''white'' 3 (CANVAS_WIDTH / 2) (CANVAS_HEIGHT / 2) (150 - 5)"

definition drawCircle :: "8 word list \<Rightarrow> nat \<Rightarrow> draw_cmd list" where
  "drawCircle dataArray bufferLength =
     map (circleTick dataArray bufferLength) [0..<120] @ [centerCircle]"

datatype VisualizerMode = Bars | Circle

text \<open>
  \<open>frequencyBinCount\<close> is half of \<open>fftSize = 256\<close>. \<open>getByteFrequencyData\<close> fills the
  fresh zeroed array of that length with the analyser's current magnitudes.
\<close>

definition frequencyBinCount :: nat where
  "frequencyBinCount = 128"

definition getByteFrequencyData :: "8 word list \<Rightarrow> 8 word list" where
  "getByteFrequencyData spectrum =
     take frequencyBinCount (spectrum @ replicate frequencyBinCount 0)"

definition progressBar :: "(real \<times> real option) option \<Rightarrow> draw_cmd list" where
  "progressBar audio =
     (case audio of
        Some (currentTime, Some duration) \<Rightarrow>
          (if duration \<noteq> 0
           then (let pct = currentTime / duration
                 in [FillRect (Css ''#22c55e'') 0 (CANVAS_HEIGHT - 6) (CANVAS_WIDTH * pct) 6])
           else [])
      | _ \<Rightarrow> [])"

text \<open>
  \<open>drawVisualizer\<close>. \<open>analyser\<close> is \<open>None\<close> while \<open>analyserRef.current\<close> is null, and
  otherwise the spectrum the analyser holds; \<open>audio\<close> is \<open>None\<close> while
  \<open>audioRef.current\<close> is null, and otherwise the element's \<open>currentTime\<close> and
  \<open>duration\<close> (\<open>None\<close> for NaN, before the metadata is loaded).
\<close>

definition drawVisualizer ::
  "canvasPlatform \<Rightarrow> songData \<Rightarrow> visualData \<Rightarrow> VisualizerMode \<Rightarrow> 8 word list option
     \<Rightarrow> (real \<times> real option) option \<Rightarrow> draw_cmd list" where
  "drawVisualizer pf songData visualData visualizerMode analyser audio =
     drawBackground pf visualData @
     drawText pf songData visualData @
     (case analyser of
        Some spectrum \<Rightarrow>
          (let bufferLength = frequencyBinCount;
               dataArray = getByteFrequencyData spectrum
           in if visualizerMode = Bars then drawBars dataArray bufferLength
              else drawCircle dataArray bufferLength)
      | None \<Rightarrow> []) @
     progressBar audio"

text \<open>
  What a drawing call leaves on the canvas: filling a rectangle of width or height 0
  paints nothing. \<open>painted\<close> keeps the calls of a frame that paint.
\<close>

fun paints :: "draw_cmd \<Rightarrow> bool" where
  "paints (FillRect p x y w h) = (w \<noteq> 0 \<and> h \<noteq> 0)"
| "paints (FillRectTurned p tx ty a x y w h) = (w \<noteq> 0 \<and> h \<noteq> 0)"
| "paints c = True"

definition painted :: "draw_cmd list \<Rightarrow> draw_cmd list" where
  "painted frame = filter paints frame"

text \<open>The all-zero analysis frame.\<close>

definition zeroFrame :: "8 word list" where
  "zeroFrame = replicate frequencyBinCount 0"

text \<open>Example inputs: a song, a caption, and a platform with the fixed-pitch metric.\<close>

definition demoSong :: songData where
  "demoSong = \<lparr>url = Some (js ''blob:track''), name = js ''Night  Drive''\<rparr>"

definition demoVisual :: visualData where
  "demoVisual = \<lparr>backgroundImage = None, caption = js ''ab cd''\<rparr>"

definition demoCanvas :: canvasPlatform where
  "demoCanvas = \<lparr>measureText = fixedPitch, imageComplete = (\<lambda>src. None)\<rparr>"

section \<open>The editor component\<close>

text \<open>
  The component's \<open>useState\<close> values. A render fixes them; every closure created by that
  render (an event handler, \<open>loop\<close>, \<open>drawVisualizer\<close>, the body of an effect) reads the
  values of its own render, whatever the state has become since.
\<close>

record view =
  isPlaying :: bool
  isRecording :: bool
  recordedVideoUrl :: "nat option"
  visualizerMode :: VisualizerMode
  startTime :: real
  duration :: real

definition initialView :: view where
  "initialView =
     \<lparr>isPlaying = False, isRecording = False, recordedVideoUrl = None,
      visualizerMode = Bars, startTime = 0, duration = 0\<rparr>"

text \<open>The \<open>Audio\<close> element; \<open>mediaDuration\<close> is \<open>None\<close> until the metadata is loaded.\<close>

record audio_el =
  currentTime :: real
  paused :: bool
  mediaDuration :: "real option"

text \<open>
  A \<open>MediaRecorder\<close>: its \<open>state\<close> attribute, the \<open>selectedMimeType\<close> and \<open>startTime\<close>
  that its \<open>onstop\<close> closure holds, whether a \<open>stop\<close> event is queued for it, and the
  clock readings at \<open>start()\<close> and \<open>stop()\<close>.
\<close>

datatype RecordingState = inactive | recording

type_synonym chunk = "8 word list"

record recorder =
  state :: RecordingState
  mimeType :: jsstring
  onstopStartTime :: real
  stopQueued :: bool
  startedAt :: int
  stoppedAt :: "int option"

text \<open>
  The timer made by \<open>window.setInterval(callback, 100)\<close> in the recording timer effect:
  the \<open>start\<close> its callback closes over, the delay passed to \<open>setInterval\<close>, and the
  clock reading at which the platform last ran the callback (at first, the reading at
  which the timer was set).
\<close>

record timer =
  timerStart :: int
  delay :: int
  lastCall :: int

text \<open>A callback passed to \<open>requestAnimationFrame\<close>, with the render it closes over.\<close>

datatype callback = Loop view | DrawVisualizerOnce view

text \<open>
  What the platform decides: the answer of \<open>MediaRecorder.isTypeSupported\<close>, whether
  constructing and starting a recorder of a supported type succeeds, and whether an
  \<open>AudioContext\<close> constructor exists.
\<close>

datatype outcome = Started | ConstructorThrows | StartThrows

record platform =
  isTypeSupported :: "jsstring \<Rightarrow> bool"
  recorderOutcome :: "jsstring \<Rightarrow> outcome"
  hasAudioContext :: bool

text \<open>
  The component instance and what it touches. \<open>st\<close> is the current state. The refs:
  \<open>audioRef\<close>; \<open>graph\<close>, true once \<open>initAudioContext\<close> has set \<open>audioContextRef\<close>,
  \<open>analyserRef\<close>, \<open>sourceRef\<close> and \<open>destRef\<close> together; \<open>animationFrameRef\<close>;
  \<open>mediaRecorderRef\<close>, an index into \<open>recorders\<close>; \<open>chunksRef\<close>. Installed by effects:
  \<open>onended\<close>, the render that the \<open>audio.onended\<close> closure belongs to; \<open>interval\<close>, the
  running recording timer; \<open>clickListener\<close>, whether
  \<open>handleUserGesture\<close> is registered on the document. On the platform side: every
  recorder constructed, the pending animation frame requests with their ids, the object
  URLs created (a URL is an index; the entry is the blob's chunks and type), the alerts
  shown, the downloads started (URL and file name), the mode of every \<open>drawVisualizer\<close>
  call made, and the reading of \<open>Date.now()\<close>.
\<close>

record world =
  st :: view
  audioRef :: "audio_el option"
  graph :: bool
  animationFrameRef :: nat
  mediaRecorderRef :: "nat option"
  chunksRef :: "chunk list"
  onended :: "view option"
  interval :: "timer option"
  clickListener :: bool
  recorders :: "recorder list"
  frameRequests :: "(nat \<times> callback) list"
  nextRequest :: nat
  objectUrls :: "(chunk list \<times> jsstring) list"
  alerts :: "jsstring list"
  downloads :: "(nat \<times> jsstring) list"
  drawn :: "VisualizerMode list"
  clock :: int

subsection \<open>Platform calls\<close>

definition requestAnimationFrame :: "callback \<Rightarrow> world \<Rightarrow> nat \<times> world" where
  "requestAnimationFrame cb w =
     (nextRequest w,
      w\<lparr>frameRequests := frameRequests w @ [(nextRequest w, cb)],
        nextRequest := nextRequest w + 1\<rparr>)"

definition cancelAnimationFrame :: "nat \<Rightarrow> world \<Rightarrow> world" where
  "cancelAnimationFrame i w =
     w\<lparr>frameRequests := filter (\<lambda>(j, cb). j \<noteq> i) (frameRequests w)\<rparr>"

text \<open>A call of \<open>drawVisualizer\<close> by a closure of render \<open>v\<close>: one more frame, in \<open>v\<close>'s mode.\<close>

definition drawVisualizerCall :: "view \<Rightarrow> world \<Rightarrow> world" where
  "drawVisualizerCall v w = w\<lparr>drawn := drawn w @ [visualizerMode v]\<rparr>"

text \<open>
  The frame that such a call paints: the analyser is read through the ref, so it is
  present exactly when the graph is open, and the audio element through \<open>audioRef\<close>.
\<close>

definition frameOf ::
  "canvasPlatform \<Rightarrow> songData \<Rightarrow> visualData \<Rightarrow> 8 word list \<Rightarrow> view \<Rightarrow> world \<Rightarrow> draw_cmd list" where
  "frameOf pf songData visualData spectrum v w =
     drawVisualizer pf songData visualData (visualizerMode v)
       (if graph w then Some spectrum else None)
       (map_option (\<lambda>a. (currentTime a, mediaDuration a)) (audioRef w))"

subsection \<open>The render loop\<close>

text \<open>\<open>loop\<close> of render \<open>v\<close> (lines 284 to 289).\<close>

definition loop :: "view \<Rightarrow> world \<Rightarrow> world" where
  "loop v w =
     (let w1 = drawVisualizerCall v w
      in if isPlaying v \<or> isRecording v
         then (let (i, w2) = requestAnimationFrame (Loop v) w1
               in w2\<lparr>animationFrameRef := i\<rparr>)
         else w1)"

fun runCallback :: "callback \<Rightarrow> world \<Rightarrow> world" where
  "runCallback (Loop v) w = loop v w"
| "runCallback (DrawVisualizerOnce v) w = drawVisualizerCall v w"

text \<open>
  One display refresh: the requests pending at its start are taken off the list and run
  in the order they were made; what they request is for the next refresh.
\<close>

definition animationFrame :: "world \<Rightarrow> world" where
  "animationFrame w =
     foldl (\<lambda>w' (i, cb). runCallback cb w') (w\<lparr>frameRequests := []\<rparr>) (frameRequests w)"

subsection \<open>Effects\<close>

text \<open>The audio effect (lines 41 to 72), run once at mount: its only dependency is a prop.\<close>

definition audioEffect :: "songData \<Rightarrow> world \<Rightarrow> world" where
  "audioEffect songData w =
     (if url songData = None \<or> url songData = Some [] then w
      else w\<lparr>audioRef := Some \<lparr>currentTime = 0, paused = True, mediaDuration = None\<rparr>,
             onended := Some (st w)\<rparr>)"

text \<open>
  The recording timer effect (lines 75 to 87), dependency \<open>isRecording\<close>: the cleanup
  clears the previous interval; the body, when recording, reads \<open>Date.now()\<close> into
  \<open>start\<close> and sets an interval of 100 ms.
\<close>

definition timerEffect :: "world \<Rightarrow> world" where
  "timerEffect w =
     (if isRecording (st w)
      then w\<lparr>interval := Some \<lparr>timerStart = clock w, delay = 100, lastCall = clock w\<rparr>\<rparr>
      else w\<lparr>interval := None\<rparr>)"

text \<open>
  The canvas effect (lines 90 to 127), dependencies \<open>backgroundImage\<close> (a prop) and
  \<open>visualizerMode\<close>: the cleanup removes the document's click listener; the body draws
  one frame and registers the listener again.
\<close>

definition canvasEffect :: "world \<Rightarrow> world" where
  "canvasEffect w =
     (let w0 = w\<lparr>clickListener := False\<rparr>
      in if audioRef w0 = None then w0
         else (drawVisualizerCall (st w0) w0)\<lparr>clickListener := True\<rparr>)"

text \<open>The scheduler effect (lines 291 to 299), dependencies \<open>isPlaying\<close> and \<open>visualizerMode\<close>.\<close>

definition schedulerEffect :: "world \<Rightarrow> world" where
  "schedulerEffect w =
     (if isPlaying (st w)
      then (let (i, w1) = requestAnimationFrame (Loop (st w)) w
            in w1\<lparr>animationFrameRef := i\<rparr>)
      else (let (i, w1) = requestAnimationFrame (Loop (st w)) w
            in cancelAnimationFrame (animationFrameRef w1) w1))"

text \<open>
  After a handler has set state, the component renders again and the effects whose
  dependencies differ from the previous render \<open>old\<close> run, in the order of the source.
  The handler, the render and these effects are taken as one step: no other event and no
  tick of the clock falls between them.
\<close>

definition commit :: "view \<Rightarrow> world \<Rightarrow> world" where
  "commit old w =
     (let w1 = (if isRecording (st w) \<noteq> isRecording old then timerEffect w else w);
          w2 = (if visualizerMode (st w) \<noteq> visualizerMode old then canvasEffect w1 else w1)
      in if isPlaying (st w) \<noteq> isPlaying old \<or> visualizerMode (st w) \<noteq> visualizerMode old
         then schedulerEffect w2 else w2)"

definition mount :: "songData \<Rightarrow> int \<Rightarrow> world" where
  "mount songData now =
     schedulerEffect (canvasEffect (timerEffect (audioEffect songData
       \<lparr>st = initialView, audioRef = None, graph = False, animationFrameRef = 0,
        mediaRecorderRef = None, chunksRef = [], onended = None, interval = None,
        clickListener = False, recorders = [], frameRequests = [], nextRequest = 1,
        objectUrls = [], alerts = [], downloads = [], drawn = [], clock = now\<rparr>)))"

subsection \<open>Handlers\<close>

text \<open>
  Each handler takes the render \<open>v\<close> whose closure it is. The canvas exists from the
  mount on, so \<open>canvasRef.current\<close> is never null in a handler. Left out, as nothing
  here reads them: the \<open>progress\<close> state set by \<open>ontimeupdate\<close>, the resuming of a
  suspended audio context in \<open>togglePlay\<close>, the streams handed to the recorder, and the
  unmount.
\<close>

definition togglePlay :: "view \<Rightarrow> world \<Rightarrow> world" where
  "togglePlay v w =
     (case audioRef w of
        None \<Rightarrow> w
      | Some a \<Rightarrow>
          if \<not> graph w then w
          else (let a' = (if isPlaying v then a\<lparr>paused := True\<rparr> else a\<lparr>paused := False\<rparr>)
                in w\<lparr>audioRef := Some a', st := (st w)\<lparr>isPlaying := \<not> isPlaying v\<rparr>\<rparr>))"

definition handleStartTimeChange :: "view \<Rightarrow> real \<Rightarrow> world \<Rightarrow> world" where
  "handleStartTimeChange v newTime w =
     (let w1 = w\<lparr>st := (st w)\<lparr>startTime := newTime\<rparr>\<rparr>
      in case audioRef w1 of
           None \<Rightarrow> w1
         | Some a \<Rightarrow>
             snd (requestAnimationFrame (DrawVisualizerOnce v)
                    (w1\<lparr>audioRef := Some (a\<lparr>currentTime := newTime\<rparr>)\<rparr>)))"

definition mimeTypes :: "jsstring list" where
  "mimeTypes =
     [js ''video/webm;codecs=vp9'', js ''video/webm;codecs=vp8'', js ''video/webm'',
      js ''video/mp4'']"

definition selectedMimeType :: "platform \<Rightarrow> jsstring option" where
  "selectedMimeType p = find (isTypeSupported p) mimeTypes"

definition unsupportedAlert :: jsstring where
  "unsupportedAlert =
     js ''Seu navegador n'' @ [0xE3] @ js ''o suporta grava'' @ [0xE7, 0xE3] @
     js ''o de v'' @ [0xED] @ js ''deo.''"

definition startErrorAlert :: jsstring where
  "startErrorAlert = js ''Erro ao iniciar grava'' @ [0xE7, 0xE3] @ js ''o.''"

definition alert :: "jsstring \<Rightarrow> world \<Rightarrow> world" where
  "alert msg w = w\<lparr>alerts := alerts w @ [msg]\<rparr>"

definition notRecording :: "world \<Rightarrow> world" where
  "notRecording w = w\<lparr>st := (st w)\<lparr>isPlaying := False, isRecording := False\<rparr>\<rparr>"

text \<open>
  \<open>new MediaRecorder(combinedStream, options)\<close> followed by the assignments of lines
  362 to 378: the recorder is stored in \<open>mediaRecorderRef\<close>, \<open>chunksRef\<close> is emptied, and
  the handlers close over \<open>selectedMimeType\<close> and \<open>startTime\<close>.
\<close>

definition newRecorder :: "jsstring \<Rightarrow> view \<Rightarrow> world \<Rightarrow> world" where
  "newRecorder selected v w =
     w\<lparr>recorders := recorders w @
          [\<lparr>state = inactive, mimeType = selected, onstopStartTime = startTime v,
            stopQueued = False, startedAt = 0, stoppedAt = None\<rparr>],
       mediaRecorderRef := Some (length (recorders w)),
       chunksRef := []\<rparr>"

definition recorderStart :: "nat \<Rightarrow> world \<Rightarrow> world" where
  "recorderStart i w =
     w\<lparr>recorders := (recorders w)[i := (recorders w ! i)\<lparr>state := recording, startedAt := clock w\<rparr>]\<rparr>"

definition startRecording :: "platform \<Rightarrow> view \<Rightarrow> world \<Rightarrow> world" where
  "startRecording p v w =
     (case audioRef w of
        None \<Rightarrow> w
      | Some a \<Rightarrow>
          if \<not> graph w then w
          else
            (let w1 = w\<lparr>audioRef := Some (a\<lparr>currentTime := startTime v, paused := False\<rparr>),
                       st := (st w)\<lparr>isPlaying := True, isRecording := True,
                                   recordedVideoUrl := None\<rparr>\<rparr>
             in case selectedMimeType p of
                  None \<Rightarrow> notRecording (alert unsupportedAlert w1)
                | Some selected \<Rightarrow>
                    (case recorderOutcome p selected of
                       ConstructorThrows \<Rightarrow> notRecording (alert startErrorAlert w1)
                     | StartThrows \<Rightarrow>
                         notRecording (alert startErrorAlert (newRecorder selected v w1))
                     | Started \<Rightarrow>
                         recorderStart (length (recorders w1)) (newRecorder selected v w1))))"

definition stopRecording :: "world \<Rightarrow> world" where
  "stopRecording w =
     (case mediaRecorderRef w of
        None \<Rightarrow> w
      | Some i \<Rightarrow>
          if i < length (recorders w) \<and> state (recorders w ! i) \<noteq> inactive
          then w\<lparr>recorders := (recorders w)[i := (recorders w ! i)
                   \<lparr>state := inactive, stopQueued := True, stoppedAt := Some (clock w)\<rparr>]\<rparr>
          else w)"

text \<open>\<open>name.replace(/\s+/g, '-')\<close>: left to right, each longest run of whitespace becomes one dash.\<close>

function replaceWhitespace :: "jsstring \<Rightarrow> jsstring" where
  "replaceWhitespace [] = []"
| "replaceWhitespace (c # cs) =
     (if isWhiteSpace c then dash # replaceWhitespace (dropWhile isWhiteSpace cs)
      else c # replaceWhitespace cs)"
  by pat_completeness auto
termination
proof (relation "measure length")
  show "wf (measure length)" by simp
next
  fix c :: jschar and cs :: jsstring
  have "length (dropWhile isWhiteSpace cs) \<le> length cs" by (rule length_dropWhile_le)
  then show "(dropWhile isWhiteSpace cs, c # cs) \<in> measure length" by simp
next
  fix c :: jschar and cs :: jsstring
  show "(cs, c # cs) \<in> measure length" by simp
qed

definition downloadName :: "songData \<Rightarrow> jsstring" where
  "downloadName songData = js ''StatusBeat-'' @ replaceWhitespace (name songData) @ js ''.webm''"

definition downloadVideo :: "songData \<Rightarrow> view \<Rightarrow> world \<Rightarrow> world" where
  "downloadVideo songData v w =
     (case recordedVideoUrl v of
        None \<Rightarrow> w
      | Some href \<Rightarrow> w\<lparr>downloads := downloads w @ [(href, downloadName songData)]\<rparr>)"

text \<open>The closures installed on the audio element and on a recorder.\<close>

definition audioOnended :: "view \<Rightarrow> world \<Rightarrow> world" where
  "audioOnended v w =
     (let w1 = w\<lparr>st := (st w)\<lparr>isPlaying := False\<rparr>\<rparr>
      in if isRecording v then stopRecording w1 else w1)"

definition audioOnloadedmetadata :: "real \<Rightarrow> world \<Rightarrow> world" where
  "audioOnloadedmetadata d w =
     (case audioRef w of
        None \<Rightarrow> w
      | Some a \<Rightarrow> w\<lparr>audioRef := Some (a\<lparr>mediaDuration := Some d\<rparr>),
                    st := (st w)\<lparr>duration := d\<rparr>\<rparr>)"

definition recorderOndataavailable :: "chunk \<Rightarrow> world \<Rightarrow> world" where
  "recorderOndataavailable d w =
     (if length d > 0 then w\<lparr>chunksRef := chunksRef w @ [d]\<rparr> else w)"

definition recorderOnstop :: "recorder \<Rightarrow> world \<Rightarrow> world" where
  "recorderOnstop r w =
     (let w1 = w\<lparr>objectUrls := objectUrls w @ [(chunksRef w, mimeType r)],
                 st := (st w)\<lparr>recordedVideoUrl := Some (length (objectUrls w)),
                             isPlaying := False, isRecording := False\<rparr>\<rparr>
      in case audioRef w1 of
           None \<Rightarrow> w1
         | Some a \<Rightarrow> w1\<lparr>audioRef := Some (a\<lparr>paused := True, currentTime := onstopStartTime r\<rparr>)\<rparr>)"

text \<open>The callback of the recording timer, with the \<open>start\<close> it closes over (lines 79 to 84).\<close>

definition intervalCallback :: "int \<Rightarrow> world \<Rightarrow> world" where
  "intervalCallback start w =
     (let elapsed = real_of_int (clock w - start) / 1000
      in if elapsed \<ge> 30 then stopRecording w else w)"

text \<open>\<open>handleUserGesture\<close>, the document's click listener (lines 95 to 120).\<close>

definition handleUserGesture :: "platform \<Rightarrow> world \<Rightarrow> world" where
  "handleUserGesture p w =
     (if graph w then w\<lparr>clickListener := False\<rparr>
      else if hasAudioContext p then w\<lparr>graph := True, clickListener := False\<rparr>
      else w)"

text \<open>A click anywhere bubbles to the document and runs the listener while it is registered.\<close>

definition documentClick :: "platform \<Rightarrow> world \<Rightarrow> world" where
  "documentClick p w = (if clickListener w then handleUserGesture p w else w)"

subsection \<open>The controls of the rendered page\<close>

datatype control =
  RecButton | StopButton | DownloadButton | NewButton | PlayButton | BarsButton | CircleButton

text \<open>
  Which controls render \<open>v\<close> offers (lines 441 to 549): a control that is not rendered,
  or is disabled, receives no click.
\<close>

fun offered :: "view \<Rightarrow> control \<Rightarrow> bool" where
  "offered v RecButton = (\<not> isRecording v \<and> recordedVideoUrl v = None)"
| "offered v StopButton = isRecording v"
| "offered v DownloadButton = (recordedVideoUrl v \<noteq> None)"
| "offered v NewButton = (recordedVideoUrl v \<noteq> None)"
| "offered v PlayButton = (\<not> isRecording v)"
| "offered v BarsButton = True"
| "offered v CircleButton = True"

fun onClick :: "platform \<Rightarrow> songData \<Rightarrow> control \<Rightarrow> view \<Rightarrow> world \<Rightarrow> world" where
  "onClick p songData RecButton v w = startRecording p v w"
| "onClick p songData StopButton v w = stopRecording w"
| "onClick p songData DownloadButton v w = downloadVideo songData v w"
| "onClick p songData NewButton v w = w\<lparr>st := (st w)\<lparr>recordedVideoUrl := None\<rparr>\<rparr>"
| "onClick p songData PlayButton v w = togglePlay v w"
| "onClick p songData BarsButton v w = w\<lparr>st := (st w)\<lparr>visualizerMode := Bars\<rparr>\<rparr>"
| "onClick p songData CircleButton v w = w\<lparr>st := (st w)\<lparr>visualizerMode := Circle\<rparr>\<rparr>"

text \<open>
  The start slider (lines 485 to 494): a range input with \<open>min\<close> 0, \<open>max\<close> as computed
  from \<open>duration\<close>, \<open>step\<close> 1, disabled while recording. The value a range input
  reports for a requested position is that position brought into \<open>[min, max]\<close> and then
  rounded to the nearest multiple of the step inside the range, upwards on a tie.
\<close>

definition sliderMax :: "real \<Rightarrow> real" where
  "sliderMax d = (if d > 30 then d - 30 else 0)"

definition rangeValue :: "real \<Rightarrow> real \<Rightarrow> real" where
  "rangeValue hi s =
     (let c = (if s < 0 then 0 else if s > hi then hi else s);
          r = of_int \<lfloor>c + 1 / 2\<rfloor>
      in if r \<le> hi then r else of_int \<lfloor>c\<rfloor>)"

subsection \<open>Events\<close>

datatype event =
    Click control
  | Slide real
  | AnimationFrame
  | Now int
  | IntervalTick
  | AudioEnded
  | LoadedMetadata real
  | DataAvailable nat chunk
  | StopEvent nat

text \<open>
  One event, handled to completion with the render that follows it. A click runs the
  control's handler of the current render and then reaches the document's listener. A
  slider input is delivered when the reported value differs from the current one.
  \<open>Now t\<close> lets the clock advance to \<open>t\<close>. \<open>IntervalTick\<close> is the platform running the
  callback of the recording timer, if one is set. A recorder delivers data once it has
  been started, and its \<open>stop\<close> event when one is queued.
\<close>

fun handle :: "platform \<Rightarrow> songData \<Rightarrow> event \<Rightarrow> world \<Rightarrow> world" where
  "handle p songData (Click c) w =
     (if offered (st w) c
      then documentClick p (commit (st w) (onClick p songData c (st w) w))
      else w)"
| "handle p songData (Slide s) w =
     (let newTime = rangeValue (sliderMax (duration (st w))) s
      in if isRecording (st w) \<or> newTime = startTime (st w) then w
         else commit (st w) (handleStartTimeChange (st w) newTime w))"
| "handle p songData AnimationFrame w = animationFrame w"
| "handle p songData (Now t) w = w\<lparr>clock := t\<rparr>"
| "handle p songData IntervalTick w =
     (case interval w of
        None \<Rightarrow> w
      | Some tm \<Rightarrow>
          intervalCallback (timerStart tm) (w\<lparr>interval := Some (tm\<lparr>lastCall := clock w\<rparr>)\<rparr>))"
| "handle p songData AudioEnded w =
     (case (audioRef w, onended w) of
        (Some a, Some v) \<Rightarrow> commit (st w) (audioOnended v w)
      | _ \<Rightarrow> w)"
| "handle p songData (LoadedMetadata d) w = commit (st w) (audioOnloadedmetadata d w)"
| "handle p songData (DataAvailable i d) w =
     (if i < length (recorders w) \<and>
         (state (recorders w ! i) = recording \<or> stopQueued (recorders w ! i))
      then recorderOndataavailable d w else w)"
| "handle p songData (StopEvent i) w =
     (if i < length (recorders w) \<and> stopQueued (recorders w ! i)
      then commit (st w)
             (recorderOnstop (recorders w ! i)
                (w\<lparr>recorders := (recorders w)[i := (recorders w ! i)\<lparr>stopQueued := False\<rparr>]\<rparr>))
      else w)"

declare handle.simps [simp del]

definition run :: "platform \<Rightarrow> songData \<Rightarrow> event list \<Rightarrow> world \<Rightarrow> world" where
  "run p songData es w = foldl (\<lambda>w' e. handle p songData e w') w es"

subsection \<open>Example platforms and sessions\<close>

definition webmPlatform :: platform where
  "webmPlatform =
     \<lparr>isTypeSupported = (\<lambda>t. t = js ''video/webm;codecs=vp8'' \<or> t = js ''video/webm''),
      recorderOutcome = (\<lambda>t. Started), hasAudioContext = True\<rparr>"

definition mp4Platform :: platform where
  "mp4Platform =
     \<lparr>isTypeSupported = (\<lambda>t. t = js ''video/mp4''),
      recorderOutcome = (\<lambda>t. Started), hasAudioContext = True\<rparr>"

definition noRecorderPlatform :: platform where
  "noRecorderPlatform =
     \<lparr>isTypeSupported = (\<lambda>t. False),
      recorderOutcome = (\<lambda>t. ConstructorThrows), hasAudioContext = True\<rparr>"

text \<open>
  The file name's sanitisation in the words of its description: the title is cut into
  its maximal runs of whitespace and of other characters, and every whitespace run is
  replaced by a single dash.
\<close>

function runs :: "jsstring \<Rightarrow> jsstring list" where
  "runs [] = []"
| "runs (c # cs) =
     (c # takeWhile (\<lambda>x. isWhiteSpace x = isWhiteSpace c) cs) #
     runs (dropWhile (\<lambda>x. isWhiteSpace x = isWhiteSpace c) cs)"
  by pat_completeness auto
termination
proof (relation "measure length")
  show "wf (measure length)" by simp
next
  fix c :: jschar and cs :: jsstring
  have "length (dropWhile (\<lambda>x. isWhiteSpace x = isWhiteSpace c) cs) \<le> length cs"
    by (rule length_dropWhile_le)
  then show "(dropWhile (\<lambda>x. isWhiteSpace x = isWhiteSpace c) cs, c # cs) \<in> measure length"
    by simp
qed

definition dashedTitle :: "jsstring \<Rightarrow> jsstring" where
  "dashedTitle title =
     concat (map (\<lambda>r. if isWhiteSpace (hd r) then [dash] else r) (runs title))"

text \<open>A session on a platform that records only \<open>video/mp4\<close>, up to the download.\<close>

definition mp4Session :: "event list" where
  "mp4Session =
     [Click PlayButton, LoadedMetadata 200, Click RecButton, AnimationFrame,
      Click StopButton, DataAvailable 0 [1, 2, 3], StopEvent 0]"

text \<open>
  The controller states of the design, read off the component: recording while
  \<open>isRecording\<close> holds and the current recorder runs, finalizing while \<open>isRecording\<close>
  still holds after the recorder was stopped, ready while a recorded URL is held, idle
  otherwise (a failed start shows its alert and is idle again).
\<close>

datatype capture = Idle | Recording | Finalizing | Ready

definition captureState :: "world \<Rightarrow> capture" where
  "captureState w =
     (if isRecording (st w)
      then (case mediaRecorderRef w of
              None \<Rightarrow> Finalizing
            | Some i \<Rightarrow>
                if i < length (recorders w) \<and> state (recorders w ! i) = recording
                then Recording else Finalizing)
      else if recordedVideoUrl (st w) \<noteq> None then Ready else Idle)"

text \<open>\<open>clamp(s, lo, hi)\<close> as the description of the trim window uses it.\<close>

definition clamp :: "real \<Rightarrow> real \<Rightarrow> real \<Rightarrow> real" where
  "clamp s lo hi = min (max s lo) hi"

text \<open>
  The platform runs the callback of an interval every \<open>delay\<close> milliseconds. It is
  punctual at a moment when the clock reads no more than \<open>delay\<close> past the reading of the
  last call; a run is punctual when the platform is punctual before every event and at
  the end.
\<close>

definition punctual :: "world \<Rightarrow> bool" where
  "punctual w =
     (case interval w of None \<Rightarrow> True | Some tm \<Rightarrow> clock w - lastCall tm \<le> delay tm)"

fun punctualRun :: "platform \<Rightarrow> songData \<Rightarrow> event list \<Rightarrow> world \<Rightarrow> bool" where
  "punctualRun p songData [] w = punctual w"
| "punctualRun p songData (e # es) w =
     (punctual w \<and> punctualRun p songData es (handle p songData e w))"

text \<open>
  What holds of the recorders of a punctual run. A recorder that is recording is the
  current one, with \<open>isRecording\<close> set, no stop queued or recorded, and the timer running
  since the recorder's own start with a delay of 100 ms and a last call less than 30
  seconds after that start. A recorder with a stop queued is the current one, with
  \<open>isRecording\<close> set. A recorder that was stopped was stopped less than 30.1 seconds
  after its start.
\<close>

definition timed :: "world \<Rightarrow> bool" where
  "timed w \<longleftrightarrow>
     (\<forall>i<length (recorders w).
        (state (recorders w ! i) = recording \<longrightarrow>
           mediaRecorderRef w = Some i \<and> isRecording (st w) \<and>
           stoppedAt (recorders w ! i) = None \<and> \<not> stopQueued (recorders w ! i) \<and>
           (\<exists>tm. interval w = Some tm \<and> timerStart tm = startedAt (recorders w ! i) \<and>
                 delay tm = 100 \<and> lastCall tm - timerStart tm < 30000)) \<and>
        (stopQueued (recorders w ! i) \<longrightarrow> mediaRecorderRef w = Some i \<and> isRecording (st w)) \<and>
        (\<forall>t. stoppedAt (recorders w ! i) = Some t \<longrightarrow>
           t - startedAt (recorders w ! i) < 30000 + 100))"

text \<open>The timer's samples at 100, 200, ... milliseconds, \<open>n\<close> of them.\<close>

definition samples :: "nat \<Rightarrow> event list" where
  "samples n = concat (map (\<lambda>k. [Now (100 * int k), IntervalTick]) [1..<Suc n])"

definition cappedSession :: "event list" where
  "cappedSession = [Click PlayButton, LoadedMetadata 200, Click RecButton] @ samples 301"

text \<open>The first click opens the audio graph; then the track's metadata arrives.\<close>

definition loadedSession :: "event list" where
  "loadedSession = [Click PlayButton, LoadedMetadata 200]"

text \<open>Sessions on the platform that records WebM.\<close>

definition recordingSession :: "event list" where
  "recordingSession = [Click PlayButton, LoadedMetadata 25, Click RecButton, AnimationFrame]"

definition outlivedSession :: "event list" where
  "outlivedSession =
     recordingSession @
     [Now 25000, AudioEnded, AnimationFrame, Now 30000, IntervalTick, StopEvent 0, AnimationFrame]"

definition pausedSession :: "event list" where
  "pausedSession =
     [Click PlayButton, LoadedMetadata 200, Click PlayButton, AnimationFrame,
      Click CircleButton, AnimationFrame, Click PlayButton, AnimationFrame]"

text \<open>A component that has never held a recorder, a chunk, an object URL or a recording.\<close>

definition quiet :: "world \<Rightarrow> bool" where
  "quiet w \<longleftrightarrow> recorders w = [] \<and> mediaRecorderRef w = None \<and> chunksRef w = [] \<and>
     objectUrls w = [] \<and> recordedVideoUrl (st w) = None \<and> \<not> isRecording (st w)"


section \<open>What the effects leave alone\<close>

lemmas effect_defs =
  commit_def schedulerEffect_def canvasEffect_def timerEffect_def
  requestAnimationFrame_def cancelAnimationFrame_def drawVisualizerCall_def
  handleUserGesture_def Let_def

lemma commit_keeps:
  "st (commit old w) = st w" "audioRef (commit old w) = audioRef w"
  "graph (commit old w) = graph w" "mediaRecorderRef (commit old w) = mediaRecorderRef w"
  "chunksRef (commit old w) = chunksRef w" "onended (commit old w) = onended w"
  "recorders (commit old w) = recorders w" "objectUrls (commit old w) = objectUrls w"
  "alerts (commit old w) = alerts w" "downloads (commit old w) = downloads w"
  "clock (commit old w) = clock w"
  by (simp_all add: effect_defs split: prod.splits)

lemma commit_interval:
  "interval (commit old w) =
     (if isRecording (st w) \<noteq> isRecording old
      then (if isRecording (st w)
            then Some \<lparr>timerStart = clock w, delay = 100, lastCall = clock w\<rparr> else None)
      else interval w)"
  by (simp add: effect_defs split: prod.splits)

lemma gesture_keeps:
  "st (documentClick p w) = st w" "audioRef (documentClick p w) = audioRef w"
  "mediaRecorderRef (documentClick p w) = mediaRecorderRef w"
  "chunksRef (documentClick p w) = chunksRef w" "onended (documentClick p w) = onended w"
  "recorders (documentClick p w) = recorders w" "objectUrls (documentClick p w) = objectUrls w"
  "alerts (documentClick p w) = alerts w" "downloads (documentClick p w) = downloads w"
  "clock (documentClick p w) = clock w" "interval (documentClick p w) = interval w"
  "frameRequests (documentClick p w) = frameRequests w" "drawn (documentClick p w) = drawn w"
  by (simp_all add: documentClick_def handleUserGesture_def)


text \<open>The animation callbacks draw and schedule; they touch neither the state nor the recorders.\<close>

lemma keeps_runCallback:
  "recorders (runCallback cb w) = recorders w" "mediaRecorderRef (runCallback cb w) = mediaRecorderRef w"
  "st (runCallback cb w) = st w" "interval (runCallback cb w) = interval w"
  "clock (runCallback cb w) = clock w"
  by (cases cb; simp add: loop_def effect_defs split: prod.splits)+

lemma keeps_callbacks:
  "recorders (foldl (\<lambda>w' (i, cb). runCallback cb w') w cbs) = recorders w
   \<and> mediaRecorderRef (foldl (\<lambda>w' (i, cb). runCallback cb w') w cbs) = mediaRecorderRef w
   \<and> st (foldl (\<lambda>w' (i, cb). runCallback cb w') w cbs) = st w
   \<and> interval (foldl (\<lambda>w' (i, cb). runCallback cb w') w cbs) = interval w
   \<and> clock (foldl (\<lambda>w' (i, cb). runCallback cb w') w cbs) = clock w"
  by (induction cbs arbitrary: w) (simp_all add: keeps_runCallback split: prod.splits)

lemma animationFrame_keeps:
  "recorders (animationFrame w) = recorders w" "mediaRecorderRef (animationFrame w) = mediaRecorderRef w"
  "st (animationFrame w) = st w" "interval (animationFrame w) = interval w"
  "clock (animationFrame w) = clock w"
  by (simp_all add: animationFrame_def keeps_callbacks)

text \<open>Only a click on REC, where it is offered, adds a recorder.\<close>

lemma click_recorders_length:
  assumes "c \<noteq> RecButton"
  shows "length (recorders (handle p songData (Click c) w)) = length (recorders w)"
  using assms
  by (cases c)
     (simp_all add: handle.simps gesture_keeps commit_keeps stopRecording_def downloadVideo_def
        togglePlay_def Let_def split: option.splits)

lemma handle_recorders_length:
  assumes "length (recorders (handle p songData e w)) \<noteq> length (recorders w)"
  shows "e = Click RecButton \<and> offered (st w) RecButton"
proof (cases e)
  case (Click c)
  show ?thesis
  proof (cases "c = RecButton")
    case True
    with assms Click show ?thesis by (auto simp: handle.simps split: if_splits)
  next
    case False
    with assms Click show ?thesis using click_recorders_length[OF False, of p songData w] by simp
  qed
next
  case (Slide s)
  with assms show ?thesis
    by (auto simp: handle.simps commit_keeps handleStartTimeChange_def requestAnimationFrame_def
        Let_def split: option.splits if_splits)
next
  case AnimationFrame
  with assms show ?thesis by (simp add: handle.simps animationFrame_keeps)
next
  case (Now t)
  with assms show ?thesis by (simp add: handle.simps)
next
  case IntervalTick
  with assms show ?thesis
    by (auto simp: handle.simps intervalCallback_def stopRecording_def Let_def
        split: option.splits if_splits)
next
  case AudioEnded
  with assms show ?thesis
    by (auto simp: handle.simps commit_keeps audioOnended_def stopRecording_def Let_def
        split: option.splits if_splits)
next
  case (LoadedMetadata d)
  with assms show ?thesis
    by (auto simp: handle.simps commit_keeps audioOnloadedmetadata_def split: option.splits)
next
  case (DataAvailable i d)
  with assms show ?thesis
    by (auto simp: handle.simps recorderOndataavailable_def split: if_splits)
next
  case (StopEvent i)
  with assms show ?thesis
    by (auto simp: handle.simps commit_keeps recorderOnstop_def Let_def
        split: option.splits if_splits)
qed




text \<open>What a click on REC does to the recorders, by the platform's answers.\<close>

lemma click_rec_nothing:
  assumes "offered (st w) RecButton"
    and "audioRef w = None \<or> \<not> graph w \<or> selectedMimeType p = None
         \<or> (\<exists>t. selectedMimeType p = Some t \<and> recorderOutcome p t = ConstructorThrows)"
  shows "recorders (handle p songData (Click RecButton) w) = recorders w"
    and "mediaRecorderRef (handle p songData (Click RecButton) w) = mediaRecorderRef w"
    and "isRecording (st (handle p songData (Click RecButton) w)) = isRecording (st w)"
    and "interval (handle p songData (Click RecButton) w) = interval w"
  using assms
  by (auto simp: handle.simps gesture_keeps commit_keeps commit_interval startRecording_def
      notRecording_def alert_def Let_def split: option.splits)

lemma click_rec_start_throws:
  assumes "offered (st w) RecButton" and "audioRef w \<noteq> None" and "graph w"
    and "selectedMimeType p = Some t" and "recorderOutcome p t = StartThrows"
  shows "recorders (handle p songData (Click RecButton) w) =
           recorders w @ [\<lparr>state = inactive, mimeType = t, onstopStartTime = startTime (st w),
                            stopQueued = False, startedAt = 0, stoppedAt = None\<rparr>]"
    and "mediaRecorderRef (handle p songData (Click RecButton) w) = Some (length (recorders w))"
    and "isRecording (st (handle p songData (Click RecButton) w)) = isRecording (st w)"
    and "interval (handle p songData (Click RecButton) w) = interval w"
  using assms
  by (auto simp: handle.simps gesture_keeps commit_keeps commit_interval startRecording_def
      notRecording_def alert_def newRecorder_def Let_def split: option.splits)

lemma click_rec_started:
  assumes "offered (st w) RecButton" and "audioRef w \<noteq> None" and "graph w"
    and "selectedMimeType p = Some t" and "recorderOutcome p t = Started"
  shows "recorders (handle p songData (Click RecButton) w) =
           recorders w @ [\<lparr>state = recording, mimeType = t, onstopStartTime = startTime (st w),
                            stopQueued = False, startedAt = clock w, stoppedAt = None\<rparr>]"
    and "mediaRecorderRef (handle p songData (Click RecButton) w) = Some (length (recorders w))"
    and "isRecording (st (handle p songData (Click RecButton) w))"
    and "interval (handle p songData (Click RecButton) w) =
           Some \<lparr>timerStart = clock w, delay = 100, lastCall = clock w\<rparr>"
    and "clock (handle p songData (Click RecButton) w) = clock w"
  using assms
  by (auto simp: handle.simps gesture_keeps commit_keeps commit_interval startRecording_def
      recorderStart_def newRecorder_def Let_def split: option.splits)

lemma click_rec_outcome:
  assumes "offered (st w) RecButton" and "audioRef w \<noteq> None" and "graph w"
    and "selectedMimeType p = Some t"
  shows "case recorderOutcome p t of
           Started \<Rightarrow>
             recorders (handle p songData (Click RecButton) w) =
               recorders w @ [\<lparr>state = recording, mimeType = t, onstopStartTime = startTime (st w),
                                stopQueued = False, startedAt = clock w, stoppedAt = None\<rparr>]
           \<and> mediaRecorderRef (handle p songData (Click RecButton) w) = Some (length (recorders w))
           \<and> chunksRef (handle p songData (Click RecButton) w) = []
           \<and> alerts (handle p songData (Click RecButton) w) = alerts w
           \<and> captureState (handle p songData (Click RecButton) w) = Recording
         | StartThrows \<Rightarrow>
             recorders (handle p songData (Click RecButton) w) =
               recorders w @ [\<lparr>state = inactive, mimeType = t, onstopStartTime = startTime (st w),
                                stopQueued = False, startedAt = 0, stoppedAt = None\<rparr>]
           \<and> alerts (handle p songData (Click RecButton) w) = alerts w @ [startErrorAlert]
           \<and> captureState (handle p songData (Click RecButton) w) = Idle
         | ConstructorThrows \<Rightarrow>
             recorders (handle p songData (Click RecButton) w) = recorders w
           \<and> alerts (handle p songData (Click RecButton) w) = alerts w @ [startErrorAlert]
           \<and> captureState (handle p songData (Click RecButton) w) = Idle"
  using assms
  by (auto simp: handle.simps gesture_keeps commit_keeps startRecording_def notRecording_def
      alert_def recorderStart_def newRecorder_def captureState_def Let_def
      split: option.splits outcome.splits)

section \<open>The natural end of the track\<close>

lemma onended_commit: "onended (commit old w) = onended w"
  by (rule commit_keeps)

lemma onended_runCallback: "onended (runCallback cb w) = onended w"
  by (cases cb) (simp_all add: loop_def effect_defs split: prod.splits)

lemma onended_callbacks:
  "onended (foldl (\<lambda>w' (i, cb). runCallback cb w') w cbs) = onended w"
  by (induction cbs arbitrary: w) (simp_all add: onended_runCallback split: prod.splits)

lemma onended_startRecording: "onended (startRecording p v w) = onended w"
  by (simp add: startRecording_def notRecording_def alert_def newRecorder_def recorderStart_def
      Let_def split: option.splits outcome.splits)

lemma onended_stopRecording: "onended (stopRecording w) = onended w"
  by (simp add: stopRecording_def split: option.splits)

lemma onended_onClick: "onended (onClick p songData c v w) = onended w"
  by (cases c)
     (simp_all add: onended_startRecording onended_stopRecording downloadVideo_def togglePlay_def
        Let_def split: option.splits)

lemma onended_handle: "onended (handle p songData e w) = onended w"
proof (cases e)
  case (Click c)
  then show ?thesis by (simp add: handle.simps gesture_keeps commit_keeps onended_onClick)
next
  case (Slide s)
  then show ?thesis
    by (simp add: handle.simps Let_def commit_keeps handleStartTimeChange_def
        requestAnimationFrame_def split: option.splits)
next
  case AnimationFrame
  then show ?thesis by (simp add: handle.simps animationFrame_def onended_callbacks)
next
  case (Now t)
  then show ?thesis by (simp add: handle.simps)
next
  case IntervalTick
  then show ?thesis
    by (simp add: handle.simps intervalCallback_def onended_stopRecording Let_def
        split: option.splits)
next
  case AudioEnded
  then show ?thesis
    by (simp add: handle.simps commit_keeps audioOnended_def onended_stopRecording Let_def
        split: option.splits)
next
  case (LoadedMetadata d)
  then show ?thesis
    by (simp add: handle.simps commit_keeps audioOnloadedmetadata_def split: option.splits)
next
  case (DataAvailable i d)
  then show ?thesis by (simp add: handle.simps recorderOndataavailable_def)
next
  case (StopEvent i)
  then show ?thesis
    by (simp add: handle.simps commit_keeps recorderOnstop_def Let_def split: option.splits)
qed

lemma onended_run: "onended (run p songData es w) = onended w"
  by (induction es rule: rev_induct) (simp_all add: run_def onended_handle)

lemma onended_mount:
  "onended (mount songData now) = None \<or> onended (mount songData now) = Some initialView"
  by (simp add: mount_def audioEffect_def effect_defs split: prod.splits)

lemma audioEnded_recorders:
  assumes "onended w = None \<or> onended w = Some initialView"
  shows "recorders (handle p songData AudioEnded w) = recorders w"
    "isRecording (st (handle p songData AudioEnded w)) = isRecording (st w)"
    "interval (handle p songData AudioEnded w) = interval w"
  using assms
  by (auto simp: handle.simps commit_keeps commit_interval audioOnended_def initialView_def Let_def
      split: option.splits)

text \<open>
  C1 fails on the code. The \<open>onended\<close> closure is the one of the first render, where
  \<open>isRecording\<close> is false, so in every session the end of the track leaves every recorder
  and \<open>isRecording\<close> as they were. For a track of 25 seconds recorded from 0: after the
  track's end the controller is still recording, the next sample does not stop it, and
  the recorder is stopped by the timer at 30 seconds, where the stop button at 25 seconds
  would have stopped it at 25.
\<close>

theorem natural_end_not_stopped:
  "recorders (handle p songData AudioEnded (run p songData es (mount songData now))) =
     recorders (run p songData es (mount songData now))
   \<and> isRecording (st (handle p songData AudioEnded (run p songData es (mount songData now)))) =
     isRecording (st (run p songData es (mount songData now)))
   \<and> captureState (run webmPlatform demoSong recordingSession (mount demoSong 0)) = Recording
   \<and> captureState (run webmPlatform demoSong (recordingSession @ [Now 25000, AudioEnded])
        (mount demoSong 0)) = Recording
   \<and> map stoppedAt (recorders (run webmPlatform demoSong
        (recordingSession @ [Now 25000, AudioEnded, Now 25100, IntervalTick]) (mount demoSong 0))) = [None]
   \<and> map stoppedAt (recorders (run webmPlatform demoSong
        (recordingSession @ [Now 25000, AudioEnded, Now 30000, IntervalTick]) (mount demoSong 0))) =
       [Some 30000]
   \<and> map stoppedAt (recorders (run webmPlatform demoSong
        (recordingSession @ [Now 25000, Click StopButton]) (mount demoSong 0))) = [Some 25000]"
proof -
  have o: "onended (run p songData es (mount songData now)) = None
         \<or> onended (run p songData es (mount songData now)) = Some initialView"
    using onended_mount[of songData now] by (simp add: onended_run)
  have c1: "captureState (run webmPlatform demoSong recordingSession (mount demoSong 0)) = Recording"
    by code_simp
  have c2: "captureState (run webmPlatform demoSong (recordingSession @ [Now 25000, AudioEnded])
        (mount demoSong 0)) = Recording"
    by code_simp
  have c3: "map stoppedAt (recorders (run webmPlatform demoSong
        (recordingSession @ [Now 25000, AudioEnded, Now 25100, IntervalTick]) (mount demoSong 0))) = [None]"
    by code_simp
  have c4: "map stoppedAt (recorders (run webmPlatform demoSong
        (recordingSession @ [Now 25000, AudioEnded, Now 30000, IntervalTick]) (mount demoSong 0))) =
       [Some 30000]"
    by code_simp
  have c5: "map stoppedAt (recorders (run webmPlatform demoSong
        (recordingSession @ [Now 25000, Click StopButton]) (mount demoSong 0))) = [Some 25000]"
    by code_simp
  show ?thesis
    using audioEnded_recorders(1,2)[OF o, of p songData] c1 c2 c3 c4 c5 by simp
qed


section \<open>The recording timer\<close>

lemma timed_cong:
  assumes "recorders w' = recorders w" and "mediaRecorderRef w' = mediaRecorderRef w"
    and "isRecording (st w') = isRecording (st w)" and "interval w' = interval w"
  shows "timed w' = timed w"
  by (simp add: timed_def assms)

lemma recording_is_current:
  assumes "timed w" and "i < length (recorders w)" and "state (recorders w ! i) = recording"
  shows "mediaRecorderRef w = Some i" and "isRecording (st w)"
    and "stoppedAt (recorders w ! i) = None" and "\<not> stopQueued (recorders w ! i)"
    and "\<exists>tm. interval w = Some tm \<and> timerStart tm = startedAt (recorders w ! i) \<and>
           delay tm = 100 \<and> lastCall tm - timerStart tm < 30000"
  using assms unfolding timed_def by blast+

lemma queued_is_current:
  assumes "timed w" and "i < length (recorders w)" and "stopQueued (recorders w ! i)"
  shows "mediaRecorderRef w = Some i" and "isRecording (st w)"
  using assms unfolding timed_def by blast+

lemma stopped_in_time:
  assumes "timed w" and "i < length (recorders w)" and "stoppedAt (recorders w ! i) = Some t"
  shows "t - startedAt (recorders w ! i) < 30000 + 100"
  using assms unfolding timed_def by blast

lemma inactive_iff: "s \<noteq> inactive \<longleftrightarrow> s = recording"
  by (cases s) simp_all

text \<open>Stopping, at the current reading of the clock, leaves no recorder recording.\<close>

lemma timed_stop_at:
  assumes t: "timed w" and p: "punctual w"
    and eq: "recorders w1 = recorders w" "mediaRecorderRef w1 = mediaRecorderRef w"
      "isRecording (st w1) = isRecording (st w)" "clock w1 = clock w"
  shows "timed (stopRecording w1)"
proof (cases "mediaRecorderRef w")
  case None
  then have s: "stopRecording w1 = w1" by (simp add: stopRecording_def eq)
  have "\<forall>i<length (recorders w). state (recorders w ! i) \<noteq> recording"
    using recording_is_current(1)[OF t] None by auto
  then show ?thesis using t by (auto simp: s timed_def eq)
next
  case (Some i)
  show ?thesis
  proof (cases "i < length (recorders w) \<and> state (recorders w ! i) = recording")
    case False
    then have s: "stopRecording w1 = w1"
      by (auto simp: stopRecording_def eq Some inactive_iff)
    have "\<forall>j<length (recorders w). state (recorders w ! j) \<noteq> recording"
      using recording_is_current(1)[OF t] Some False by auto
    then show ?thesis using t by (auto simp: s timed_def eq)
  next
    case True
    then have il: "i < length (recorders w)" and ir: "state (recorders w ! i) = recording" by simp_all
    from recording_is_current(5)[OF t il ir] obtain tm where tm: "interval w = Some tm"
      "timerStart tm = startedAt (recorders w ! i)" "delay tm = 100"
      "lastCall tm - timerStart tm < 30000" by blast
    from p tm have late: "clock w - lastCall tm \<le> 100" by (simp add: punctual_def)
    have bound: "clock w - startedAt (recorders w ! i) < 30000 + 100"
      using late tm(2,4) by linarith
    have s: "recorders (stopRecording w1) = (recorders w)[i := (recorders w ! i)
          \<lparr>state := inactive, stopQueued := True, stoppedAt := Some (clock w)\<rparr>]"
      "mediaRecorderRef (stopRecording w1) = Some i"
      "isRecording (st (stopRecording w1)) = isRecording (st w)"
      using True by (simp_all add: stopRecording_def eq Some)
    have cur: "isRecording (st w)" by (rule recording_is_current(2)[OF t il ir])
    have others: "\<And>j. j < length (recorders w) \<Longrightarrow> j \<noteq> i \<Longrightarrow>
        state (recorders w ! j) \<noteq> recording \<and> \<not> stopQueued (recorders w ! j)"
      using recording_is_current(1)[OF t] queued_is_current(1)[OF t] Some by fastforce
    show ?thesis
      unfolding timed_def s
    proof (intro allI impI)
      fix j assume "j < length ((recorders w)[i := (recorders w ! i)
          \<lparr>state := inactive, stopQueued := True, stoppedAt := Some (clock w)\<rparr>])"
      then have jl: "j < length (recorders w)" by simp
      show "(state ((recorders w)[i := (recorders w ! i)
               \<lparr>state := inactive, stopQueued := True, stoppedAt := Some (clock w)\<rparr>] ! j) = recording \<longrightarrow>
           Some i = Some j \<and> isRecording (st w) \<and>
           stoppedAt ((recorders w)[i := (recorders w ! i)
               \<lparr>state := inactive, stopQueued := True, stoppedAt := Some (clock w)\<rparr>] ! j) = None \<and>
           \<not> stopQueued ((recorders w)[i := (recorders w ! i)
               \<lparr>state := inactive, stopQueued := True, stoppedAt := Some (clock w)\<rparr>] ! j) \<and>
           (\<exists>tm. interval (stopRecording w1) = Some tm \<and>
                 timerStart tm = startedAt ((recorders w)[i := (recorders w ! i)
               \<lparr>state := inactive, stopQueued := True, stoppedAt := Some (clock w)\<rparr>] ! j) \<and>
                 delay tm = 100 \<and> lastCall tm - timerStart tm < 30000)) \<and>
        (stopQueued ((recorders w)[i := (recorders w ! i)
               \<lparr>state := inactive, stopQueued := True, stoppedAt := Some (clock w)\<rparr>] ! j) \<longrightarrow>
           Some i = Some j \<and> isRecording (st w)) \<and>
        (\<forall>t. stoppedAt ((recorders w)[i := (recorders w ! i)
               \<lparr>state := inactive, stopQueued := True, stoppedAt := Some (clock w)\<rparr>] ! j) = Some t \<longrightarrow>
           t - startedAt ((recorders w)[i := (recorders w ! i)
               \<lparr>state := inactive, stopQueued := True, stoppedAt := Some (clock w)\<rparr>] ! j) < 30000 + 100)"
      proof (cases "j = i")
        case True
        then show ?thesis using il cur bound by simp
      next
        case False
        then show ?thesis
          using others[OF jl False] stopped_in_time[OF t jl] by simp
      qed
    qed
  qed
qed

lemma timed_stopRecording: "timed w \<Longrightarrow> punctual w \<Longrightarrow> timed (stopRecording w)"
  by (rule timed_stop_at) simp_all


lemma timed_animationFrame: "timed (animationFrame w) = timed w"
  by (rule timed_cong) (simp_all add: animationFrame_def keeps_callbacks)

lemma timed_slide: "timed (handle p songData (Slide s) w) = timed w"
  by (rule timed_cong)
     (simp_all add: handle.simps Let_def commit_keeps commit_interval handleStartTimeChange_def
        requestAnimationFrame_def split: option.splits)

lemma timed_metadata: "timed (handle p songData (LoadedMetadata d) w) = timed w"
  by (rule timed_cong)
     (simp_all add: handle.simps commit_keeps commit_interval audioOnloadedmetadata_def
        split: option.splits)

lemma timed_data: "timed (handle p songData (DataAvailable i d) w) = timed w"
  by (rule timed_cong) (simp_all add: handle.simps recorderOndataavailable_def)

lemma timed_now: "timed (handle p songData (Now t) w) = timed w"
  by (rule timed_cong) (simp_all add: handle.simps)

lemma timed_tick:
  assumes t: "timed w" and p: "punctual w"
  shows "timed (handle p' songData IntervalTick w)"
proof (cases "interval w")
  case None
  then show ?thesis using t by (simp add: handle.simps)
next
  case (Some tm)
  let ?w1 = "w\<lparr>interval := Some (tm\<lparr>lastCall := clock w\<rparr>)\<rparr>"
  show ?thesis
  proof (cases "clock w - timerStart tm < 30000")
    case True
    then have "\<not> 30 \<le> real_of_int (clock w - timerStart tm) / 1000" by simp
    then have h: "handle p' songData IntervalTick w = ?w1"
      by (simp add: handle.simps Some intervalCallback_def Let_def)
    show ?thesis
      unfolding h using t True Some by (auto simp: timed_def)
  next
    case False
    then have "30 \<le> real_of_int (clock w - timerStart tm) / 1000" by simp
    then have h: "handle p' songData IntervalTick w = stopRecording ?w1"
      by (simp add: handle.simps Some intervalCallback_def Let_def)
    show ?thesis
      unfolding h by (rule timed_stop_at[OF t p]) simp_all
  qed
qed

lemma timed_ended:
  assumes t: "timed w" and p: "punctual w"
  shows "timed (handle p' songData AudioEnded w)"
proof (cases "\<exists>a v. audioRef w = Some a \<and> onended w = Some v")
  case False
  then have "handle p' songData AudioEnded w = w"
    by (auto simp: handle.simps split: option.splits)
  then show ?thesis using t by simp
next
  case True
  then obtain a v where av: "audioRef w = Some a" "onended w = Some v" by blast
  let ?w1 = "w\<lparr>st := (st w)\<lparr>isPlaying := False\<rparr>\<rparr>"
  have h: "handle p' songData AudioEnded w = commit (st w) (audioOnended v w)"
    by (simp add: handle.simps av)
  show ?thesis
  proof (cases "isRecording v")
    case True
    then have a: "audioOnended v w = stopRecording ?w1" by (simp add: audioOnended_def Let_def)
    have s: "isRecording (st (stopRecording ?w1)) = isRecording (st w)"
      by (simp add: stopRecording_def split: option.splits)
    have "timed (commit (st w) (stopRecording ?w1)) = timed (stopRecording ?w1)"
      by (rule timed_cong) (simp_all add: commit_keeps commit_interval s)
    moreover have "timed (stopRecording ?w1)"
      by (rule timed_stop_at[OF t p]) simp_all
    ultimately show ?thesis by (simp add: h a)
  next
    case False
    then have a: "audioOnended v w = ?w1" by (simp add: audioOnended_def Let_def)
    have "timed (commit (st w) ?w1) = timed w"
      by (rule timed_cong) (simp_all add: commit_keeps commit_interval)
    then show ?thesis using t by (simp add: h a)
  qed
qed

lemma timed_stopEvent:
  assumes t: "timed w"
  shows "timed (handle p' songData (StopEvent i) w)"
proof (cases "i < length (recorders w) \<and> stopQueued (recorders w ! i)")
  case False
  then have "handle p' songData (StopEvent i) w = w" by (auto simp: handle.simps)
  then show ?thesis using t by simp
next
  case True
  then have il: "i < length (recorders w)" and iq: "stopQueued (recorders w ! i)" by simp_all
  have cur: "mediaRecorderRef w = Some i" "isRecording (st w)"
    using queued_is_current[OF t il iq] by simp_all
  let ?w' = "handle p' songData (StopEvent i) w"
  have r: "recorders ?w' = (recorders w)[i := (recorders w ! i)\<lparr>stopQueued := False\<rparr>]"
    "mediaRecorderRef ?w' = mediaRecorderRef w" "\<not> isRecording (st ?w')"
    using True
    by (simp_all add: handle.simps commit_keeps recorderOnstop_def Let_def split: option.splits)
  have none: "\<And>j. j < length (recorders w) \<Longrightarrow> state (recorders w ! j) \<noteq> recording"
  proof
    fix j assume jl: "j < length (recorders w)" and jr: "state (recorders w ! j) = recording"
    from recording_is_current(1)[OF t jl jr] cur(1) have "j = i" by simp
    with recording_is_current(4)[OF t jl jr] iq show False by simp
  qed
  have quiet: "\<And>j. j < length (recorders w) \<Longrightarrow> j \<noteq> i \<Longrightarrow> \<not> stopQueued (recorders w ! j)"
    using queued_is_current(1)[OF t] cur(1) by fastforce
  show ?thesis
    unfolding timed_def r
  proof (intro allI impI)
    fix j assume "j < length ((recorders w)[i := (recorders w ! i)\<lparr>stopQueued := False\<rparr>])"
    then have jl: "j < length (recorders w)" by simp
    show "(state ((recorders w)[i := (recorders w ! i)\<lparr>stopQueued := False\<rparr>] ! j) = recording \<longrightarrow>
           mediaRecorderRef w = Some j \<and> isRecording (st ?w') \<and>
           stoppedAt ((recorders w)[i := (recorders w ! i)\<lparr>stopQueued := False\<rparr>] ! j) = None \<and>
           \<not> stopQueued ((recorders w)[i := (recorders w ! i)\<lparr>stopQueued := False\<rparr>] ! j) \<and>
           (\<exists>tm. interval ?w' = Some tm \<and>
                 timerStart tm = startedAt ((recorders w)[i := (recorders w ! i)\<lparr>stopQueued := False\<rparr>] ! j) \<and>
                 delay tm = 100 \<and> lastCall tm - timerStart tm < 30000)) \<and>
        (stopQueued ((recorders w)[i := (recorders w ! i)\<lparr>stopQueued := False\<rparr>] ! j) \<longrightarrow>
           mediaRecorderRef w = Some j \<and> isRecording (st ?w')) \<and>
        (\<forall>t. stoppedAt ((recorders w)[i := (recorders w ! i)\<lparr>stopQueued := False\<rparr>] ! j) = Some t \<longrightarrow>
           t - startedAt ((recorders w)[i := (recorders w ! i)\<lparr>stopQueued := False\<rparr>] ! j) < 30000 + 100)"
    proof (cases "j = i")
      case True
      then show ?thesis using il none[OF il] stopped_in_time[OF t il] by simp
    next
      case False
      then show ?thesis using none[OF jl] quiet[OF jl False] stopped_in_time[OF t jl] by simp
    qed
  qed
qed

lemma idle_recorders:
  assumes t: "timed w" and n: "\<not> isRecording (st w)" and i: "i < length (recorders w)"
  shows "state (recorders w ! i) \<noteq> recording" and "\<not> stopQueued (recorders w ! i)"
  using recording_is_current(2)[OF t i] queued_is_current(2)[OF t i] n by auto

lemma timed_click_rec:
  assumes t: "timed w"
  shows "timed (handle p songData (Click RecButton) w)"
proof (cases "offered (st w) RecButton")
  case False
  then have "handle p songData (Click RecButton) w = w" by (simp only: handle.simps if_False)
  then show ?thesis using t by simp
next
  case off: True
  then have n: "\<not> isRecording (st w)" by simp
  note idle = idle_recorders[OF t n]
  let ?w' = "handle p songData (Click RecButton) w"
  show ?thesis
  proof (cases "audioRef w = None \<or> \<not> graph w \<or> selectedMimeType p = None
         \<or> (\<exists>t. selectedMimeType p = Some t \<and> recorderOutcome p t = ConstructorThrows)")
    case none: True
    have c1: "recorders ?w' = recorders w"
      using off none by (rule click_rec_nothing(1))
    have c2: "mediaRecorderRef ?w' = mediaRecorderRef w"
      using off none by (rule click_rec_nothing(2))
    have c3: "isRecording (st ?w') = isRecording (st w)"
      using off none by (rule click_rec_nothing(3))
    have c4: "interval ?w' = interval w"
      using off none by (rule click_rec_nothing(4))
    have "timed ?w' = timed w"
      using c1 c2 c3 c4 by (rule timed_cong)
    then show ?thesis using t by simp
  next
    case False
    then obtain u where u: "selectedMimeType p = Some u" by auto
    from False have au: "audioRef w \<noteq> None" and gr: "graph w" by simp_all
    from False u have nc: "recorderOutcome p u \<noteq> ConstructorThrows" by simp
    show ?thesis
    proof (cases "recorderOutcome p u = StartThrows")
      case throws: True
      have c1: "recorders ?w' =
           recorders w @ [\<lparr>state = inactive, mimeType = u, onstopStartTime = startTime (st w),
                            stopQueued = False, startedAt = 0, stoppedAt = None\<rparr>]"
        using off au gr u throws by (rule click_rec_start_throws(1))
      have c2: "mediaRecorderRef ?w' = Some (length (recorders w))"
        using off au gr u throws by (rule click_rec_start_throws(2))
      have c3: "isRecording (st ?w') = isRecording (st w)"
        using off au gr u throws by (rule click_rec_start_throws(3))
      have c4: "interval ?w' = interval w"
        using off au gr u throws by (rule click_rec_start_throws(4))
      show ?thesis
        unfolding timed_def c1 c2
        using idle stopped_in_time[OF t] n c3
        by (auto simp: nth_append less_Suc_eq)
    next
      case False
      with nc have started: "recorderOutcome p u = Started"
        by (cases "recorderOutcome p u") simp_all
      have c1: "recorders ?w' =
           recorders w @ [\<lparr>state = recording, mimeType = u, onstopStartTime = startTime (st w),
                            stopQueued = False, startedAt = clock w, stoppedAt = None\<rparr>]"
        using off au gr u started by (rule click_rec_started(1))
      have c2: "mediaRecorderRef ?w' = Some (length (recorders w))"
        using off au gr u started by (rule click_rec_started(2))
      have c3: "isRecording (st ?w')"
        using off au gr u started by (rule click_rec_started(3))
      have c4: "interval ?w' = Some \<lparr>timerStart = clock w, delay = 100, lastCall = clock w\<rparr>"
        using off au gr u started by (rule click_rec_started(4))
      show ?thesis
        unfolding timed_def c1 c2 c4
        using idle stopped_in_time[OF t] c3
        by (auto simp: nth_append less_Suc_eq)
    qed
  qed
qed

lemma timed_click:
  assumes t: "timed w" and p: "punctual w"
  shows "timed (handle p' songData (Click c) w)"
proof (cases c)
  case RecButton
  then show ?thesis using timed_click_rec[OF t] by simp
next
  case StopButton
  show ?thesis
  proof (cases "offered (st w) StopButton")
    case False
    then have "handle p' songData (Click StopButton) w = w" by (simp only: handle.simps if_False)
    then show ?thesis using t StopButton by simp
  next
    case True
    have s: "isRecording (st (stopRecording w)) = isRecording (st w)"
      by (simp add: stopRecording_def split: option.splits)
    have "timed (handle p' songData (Click StopButton) w) = timed (stopRecording w)"
      by (rule timed_cong)
         (use True in \<open>simp_all add: handle.simps gesture_keeps commit_keeps commit_interval s\<close>)
    then show ?thesis using timed_stopRecording[OF t p] StopButton by simp
  qed
next
  case DownloadButton
  have "timed (handle p' songData (Click DownloadButton) w) = timed w"
    by (rule timed_cong)
       (simp_all add: handle.simps gesture_keeps commit_keeps commit_interval downloadVideo_def
          split: option.splits)
  then show ?thesis using t DownloadButton by simp
next
  case NewButton
  have "timed (handle p' songData (Click NewButton) w) = timed w"
    by (rule timed_cong) (simp_all add: handle.simps gesture_keeps commit_keeps commit_interval)
  then show ?thesis using t NewButton by simp
next
  case PlayButton
  have "timed (handle p' songData (Click PlayButton) w) = timed w"
    by (rule timed_cong)
       (simp_all add: handle.simps gesture_keeps commit_keeps commit_interval togglePlay_def
          Let_def split: option.splits)
  then show ?thesis using t PlayButton by simp
next
  case BarsButton
  have "timed (handle p' songData (Click BarsButton) w) = timed w"
    by (rule timed_cong) (simp_all add: handle.simps gesture_keeps commit_keeps commit_interval)
  then show ?thesis using t BarsButton by simp
next
  case CircleButton
  have "timed (handle p' songData (Click CircleButton) w) = timed w"
    by (rule timed_cong) (simp_all add: handle.simps gesture_keeps commit_keeps commit_interval)
  then show ?thesis using t CircleButton by simp
qed

lemma timed_handle:
  assumes "timed w" and "punctual w"
  shows "timed (handle p songData e w)"
proof (cases e)
  case (Click c)
  then show ?thesis using timed_click[OF assms] by simp
next
  case (Slide s)
  then show ?thesis using assms(1) by (simp add: timed_slide)
next
  case AnimationFrame
  then show ?thesis using assms(1) by (simp add: handle.simps timed_animationFrame)
next
  case (Now t)
  then show ?thesis using assms(1) by (simp add: timed_now)
next
  case IntervalTick
  then show ?thesis using timed_tick[OF assms] by simp
next
  case AudioEnded
  then show ?thesis using timed_ended[OF assms] by simp
next
  case (LoadedMetadata d)
  then show ?thesis using assms(1) by (simp add: timed_metadata)
next
  case (DataAvailable i d)
  then show ?thesis using assms(1) by (simp add: timed_data)
next
  case (StopEvent i)
  then show ?thesis using timed_stopEvent[OF assms(1)] by simp
qed

lemma timed_mount: "timed (mount songData now)"
proof -
  have "recorders (mount songData now) = []"
    by (simp add: mount_def audioEffect_def effect_defs split: prod.splits)
  then show ?thesis by (simp add: timed_def)
qed

lemma timed_run:
  assumes "timed w" and "punctualRun p songData es w"
  shows "timed (run p songData es w) \<and> punctual (run p songData es w)"
  using assms
proof (induction es arbitrary: w)
  case Nil
  then show ?case by (simp add: run_def)
next
  case (Cons e es)
  from Cons.prems have pw: "punctual w" and pr: "punctualRun p songData es (handle p songData e w)"
    by simp_all
  have "timed (handle p songData e w)" by (rule timed_handle[OF Cons.prems(1) pw])
  from Cons.IH[OF this pr] show ?case by (simp add: run_def)
qed


lemma tick_below_cap:
  fixes w :: world
  assumes "interval w = Some tm" and "clock w - timerStart tm < 30000"
  shows "recorders (handle p songData IntervalTick w) = recorders w"
proof -
  from assms(2) have "\<not> 30 \<le> real_of_int (clock w - timerStart tm) / 1000" by simp
  then show ?thesis
    by (simp add: handle.simps assms(1) intervalCallback_def Let_def)
qed

lemma tick_at_cap:
  fixes w :: world
  assumes "interval w = Some tm" and "30000 \<le> clock w - timerStart tm"
    and "mediaRecorderRef w = Some i" and "i < length (recorders w)"
    and "state (recorders w ! i) = recording"
  shows "state (recorders (handle p songData IntervalTick w) ! i) = inactive"
    and "stoppedAt (recorders (handle p songData IntervalTick w) ! i) = Some (clock w)"
proof -
  from assms(2) have "30 \<le> real_of_int (clock w - timerStart tm) / 1000" by simp
  then show "state (recorders (handle p songData IntervalTick w) ! i) = inactive"
    "stoppedAt (recorders (handle p songData IntervalTick w) ! i) = Some (clock w)"
    using assms(3,4,5)
    by (simp_all add: handle.simps assms(1) intervalCallback_def stopRecording_def Let_def)
qed


text \<open>
  C2. A recording is capped at thirty seconds. While a recorder is recording, the component's
  timer is the one set when that recorder was started: it samples the clock every
  \<^term>\<open>100::int\<close> milliseconds (the period given to \<open>setInterval\<close>) against the recorder's own start
  time, and the first sample that reads thirty seconds or more stops the recorder at that
  reading. So, in every session in which the timer's callback is never later than its period
  (\<^const>\<open>punctualRun\<close>), every recorder that was stopped was stopped less than 30 s + 100 ms
  after it was started, and a recorder still recording has been recording for less than that.
\<close>

theorem recording_capped:
  assumes "punctualRun p songData es (mount songData now)"
  shows "(\<forall>r\<in>set (recorders (run p songData es (mount songData now))).
            (\<forall>t. stoppedAt r = Some t \<longrightarrow> t - startedAt r < 30000 + 100)
          \<and> (state r = recording \<longrightarrow>
                stoppedAt r = None
              \<and> clock (run p songData es (mount songData now)) - startedAt r < 30000 + 100
              \<and> (\<exists>tm. interval (run p songData es (mount songData now)) = Some tm
                    \<and> timerStart tm = startedAt r \<and> delay tm = 100
                    \<and> lastCall tm - startedAt r < 30000)))
       \<and> (\<forall>(w::world) tm i. interval w = Some tm \<and> mediaRecorderRef w = Some i
              \<and> i < length (recorders w) \<and> state (recorders w ! i) = recording \<longrightarrow>
              (if 30000 \<le> clock w - timerStart tm
               then state (recorders (handle p songData IntervalTick w) ! i) = inactive
                  \<and> stoppedAt (recorders (handle p songData IntervalTick w) ! i) = Some (clock w)
               else recorders (handle p songData IntervalTick w) = recorders w))"
proof (intro conjI ballI allI impI)
  let ?w = "run p songData es (mount songData now)"
  from timed_run[OF timed_mount assms] have t: "timed ?w" and pu: "punctual ?w" by simp_all
  fix r assume "r \<in> set (recorders ?w)"
  then obtain i where i: "i < length (recorders ?w)" and r: "r = recorders ?w ! i"
    by (auto simp: in_set_conv_nth)
  show "\<And>u. stoppedAt r = Some u \<Longrightarrow> u - startedAt r < 30000 + 100"
    using stopped_in_time[OF t i] by (simp add: r)
  assume rec: "state r = recording"
  then have ri: "state (recorders ?w ! i) = recording" by (simp add: r)
  show "stoppedAt r = None" using recording_is_current(3)[OF t i ri] by (simp add: r)
  from recording_is_current(5)[OF t i ri] obtain tm where tm: "interval ?w = Some tm"
    "timerStart tm = startedAt r" "delay tm = 100" "lastCall tm - timerStart tm < 30000"
    by (auto simp: r)
  from pu tm(1,3) have "clock ?w - lastCall tm \<le> 100" by (simp add: punctual_def)
  with tm(2,4) show "clock ?w - startedAt r < 30000 + 100" by linarith
  show "\<exists>tm. interval ?w = Some tm \<and> timerStart tm = startedAt r \<and> delay tm = 100
          \<and> lastCall tm - startedAt r < 30000"
    using tm by auto
next
  fix w :: world and tm i
  assume h: "interval w = Some tm \<and> mediaRecorderRef w = Some i
              \<and> i < length (recorders w) \<and> state (recorders w ! i) = recording"
  show "if 30000 \<le> clock w - timerStart tm
        then state (recorders (handle p songData IntervalTick w) ! i) = inactive
           \<and> stoppedAt (recorders (handle p songData IntervalTick w) ! i) = Some (clock w)
        else recorders (handle p songData IntervalTick w) = recorders w"
  proof (cases "30000 \<le> clock w - timerStart tm")
    case True
    then show ?thesis using tick_at_cap[of w tm i p songData] h by simp
  next
    case False
    then show ?thesis using tick_below_cap[of w tm p songData] h by simp
  qed
qed

text \<open>
  A session that presses REC and then lets the timer run punctually: the recorder, started at
  0, is still recording at the sample before thirty seconds and is stopped at 30000.
\<close>

theorem recording_capped_witness:
  "punctualRun webmPlatform demoSong cappedSession (mount demoSong 0)
   \<and> map startedAt (recorders (run webmPlatform demoSong cappedSession (mount demoSong 0))) = [0]
   \<and> map stoppedAt (recorders (run webmPlatform demoSong cappedSession (mount demoSong 0))) =
       [Some 30000]
   \<and> map state (recorders (run webmPlatform demoSong cappedSession (mount demoSong 0))) = [inactive]
   \<and> map state (recorders (run webmPlatform demoSong (butlast (butlast (butlast cappedSession)))
         (mount demoSong 0))) = [recording]
   \<and> clock (run webmPlatform demoSong (butlast (butlast (butlast cappedSession)))
         (mount demoSong 0)) = 30000"
proof -
  let ?w = "run webmPlatform demoSong cappedSession (mount demoSong 0)"
  have h: "punctualRun webmPlatform demoSong cappedSession (mount demoSong 0)" by code_simp
  have e1: "recorders ?w = [\<lparr>state = inactive, mimeType = js ''video/webm;codecs=vp8'',
      onstopStartTime = 0, stopQueued = True, startedAt = 0, stoppedAt = Some 30000\<rparr>]"
    by code_simp
  have e2: "map state (recorders (run webmPlatform demoSong (butlast (butlast (butlast cappedSession)))
         (mount demoSong 0))) = [recording]" by code_simp
  have e3: "clock (run webmPlatform demoSong (butlast (butlast (butlast cappedSession)))
         (mount demoSong 0)) = 30000" by code_simp
  from recording_capped[OF h]
  have "\<forall>r\<in>set (recorders ?w). \<forall>t. stoppedAt r = Some t \<longrightarrow> t - startedAt r < 30000 + 100"
    by blast
  then have "(30000::int) - 0 < 30000 + 100" by (simp add: e1)
  then show ?thesis using h e2 e3 by (simp add: e1)
qed

section \<open>The start offset\<close>

lemma sliderMax_max: "sliderMax d = max 0 (d - 30)"
  by (simp add: sliderMax_def)

lemma rangeValue_props:
  assumes "0 \<le> hi"
  shows "rangeValue hi s \<in> \<int>" and "0 \<le> rangeValue hi s" and "rangeValue hi s \<le> hi"
    and "\<bar>rangeValue hi s - clamp s 0 hi\<bar> < 1"
    and "clamp s 0 hi \<in> \<int> \<Longrightarrow> rangeValue hi s = clamp s 0 hi"
proof -
  define c where "c = (if s < 0 then 0 else if s > hi then hi else s)"
  have cc: "c = clamp s 0 hi" using assms by (auto simp: c_def clamp_def)
  have c0: "0 \<le> c" and chi: "c \<le> hi" using assms by (auto simp: c_def)
  have rv: "rangeValue hi s =
      (if of_int \<lfloor>c + 1 / 2\<rfloor> \<le> hi then of_int \<lfloor>c + 1 / 2\<rfloor> else of_int \<lfloor>c\<rfloor>)"
    by (simp add: rangeValue_def c_def Let_def)
  show "rangeValue hi s \<in> \<int>" by (simp add: rv)
  have f0: "0 \<le> \<lfloor>c\<rfloor>" and f1: "0 \<le> \<lfloor>c + 1 / 2\<rfloor>" using c0 by simp_all
  show "0 \<le> rangeValue hi s" using f0 f1 by (simp add: rv)
  have "real_of_int \<lfloor>c\<rfloor> \<le> hi" using chi by linarith
  then show "rangeValue hi s \<le> hi" by (simp add: rv)
  have "\<bar>real_of_int \<lfloor>c + 1 / 2\<rfloor> - c\<bar> < 1" by linarith
  moreover have "\<bar>real_of_int \<lfloor>c\<rfloor> - c\<bar> < 1" by linarith
  ultimately show "\<bar>rangeValue hi s - clamp s 0 hi\<bar> < 1" by (simp add: rv cc[symmetric])
  show "rangeValue hi s = clamp s 0 hi" if "clamp s 0 hi \<in> \<int>"
  proof -
    from that obtain k :: int where k: "c = of_int k" by (auto simp: cc elim: Ints_cases)
    have "\<lfloor>c + 1 / 2\<rfloor> = k" unfolding k by linarith
    moreover have "\<lfloor>c\<rfloor> = k" unfolding k by simp
    ultimately show ?thesis by (simp add: rv cc[symmetric] k)
  qed
qed

lemma slide_startTime:
  "\<not> isRecording (st w) \<Longrightarrow>
     startTime (st (handle p songData (Slide s) w)) = rangeValue (sliderMax (duration (st w))) s"
  by (simp add: handle.simps Let_def commit_keeps handleStartTimeChange_def
      requestAnimationFrame_def split: option.splits)

lemma slide_cursor:
  assumes "\<not> isRecording (st w)" "audioRef w = Some a"
    "rangeValue (sliderMax (duration (st w))) s \<noteq> startTime (st w)"
  shows "map_option currentTime (audioRef (handle p songData (Slide s) w)) =
           Some (rangeValue (sliderMax (duration (st w))) s)"
  using assms
  by (simp add: handle.simps Let_def commit_keeps handleStartTimeChange_def
      requestAnimationFrame_def)

lemma startRecording_cursor:
  assumes "audioRef w = Some a" "graph w"
  shows "map_option currentTime (audioRef (startRecording p v w)) = Some (startTime v)"
  using assms
  by (auto simp: startRecording_def notRecording_def alert_def newRecorder_def recorderStart_def
      Let_def split: option.splits outcome.splits)

text \<open>
  C3 (as amended). While the slider is enabled, the start offset stored for a requested
  offset \<open>s\<close> is the value the range input reports: \<open>clamp(s, 0, max(0, D - 30))\<close>
  rounded to a whole second inside that window. It is a whole number between 0 and
  \<open>max(0, D - 30)\<close>, less than a second away from the clamp and equal to it whenever the
  clamp is whole; so it leaves 30 seconds before the end when \<open>D > 30\<close> and is 0
  otherwise. The slider handler moves the audio cursor to it when the value changes, and
  \<open>startRecording\<close> moves the cursor to it again.
\<close>

theorem start_offset_applied:
  assumes "\<not> isRecording (st w)"
  shows "startTime (st (handle p songData (Slide s) w)) = rangeValue (sliderMax (duration (st w))) s
       \<and> startTime (st (handle p songData (Slide s) w)) \<in> \<int>
       \<and> 0 \<le> startTime (st (handle p songData (Slide s) w))
       \<and> startTime (st (handle p songData (Slide s) w)) \<le> max 0 (duration (st w) - 30)
       \<and> \<bar>startTime (st (handle p songData (Slide s) w)) - clamp s 0 (max 0 (duration (st w) - 30))\<bar> < 1
       \<and> (clamp s 0 (max 0 (duration (st w) - 30)) \<in> \<int> \<longrightarrow>
            startTime (st (handle p songData (Slide s) w)) = clamp s 0 (max 0 (duration (st w) - 30)))
       \<and> (duration (st w) > 30 \<longrightarrow> startTime (st (handle p songData (Slide s) w)) + 30 \<le> duration (st w))
       \<and> (\<not> duration (st w) > 30 \<longrightarrow> startTime (st (handle p songData (Slide s) w)) = 0)
       \<and> (audioRef w \<noteq> None \<and> startTime (st (handle p songData (Slide s) w)) \<noteq> startTime (st w) \<longrightarrow>
            map_option currentTime (audioRef (handle p songData (Slide s) w)) =
              Some (startTime (st (handle p songData (Slide s) w))))
       \<and> (audioRef w \<noteq> None \<and> graph w \<longrightarrow>
            map_option currentTime (audioRef (startRecording p
               (st (handle p songData (Slide s) w)) (handle p songData (Slide s) w))) =
              Some (startTime (st (handle p songData (Slide s) w))))"
proof -
  let ?hi = "max 0 (duration (st w) - 30)"
  let ?w' = "handle p songData (Slide s) w"
  have hi: "0 \<le> ?hi" by simp
  have a: "startTime (st ?w') = rangeValue ?hi s"
    using slide_startTime[OF assms] by (simp add: sliderMax_max)
  note rp = rangeValue_props[OF hi, of s]
  have b: "duration (st w) > 30 \<longrightarrow> startTime (st ?w') + 30 \<le> duration (st w)"
    using rp(3) by (auto simp: a)
  have c: "\<not> duration (st w) > 30 \<longrightarrow> startTime (st ?w') = 0"
    using rp(2,3) by (auto simp: a)
  have d: "audioRef w \<noteq> None \<and> startTime (st ?w') \<noteq> startTime (st w) \<longrightarrow>
            map_option currentTime (audioRef ?w') = Some (startTime (st ?w'))"
  proof
    assume h: "audioRef w \<noteq> None \<and> startTime (st ?w') \<noteq> startTime (st w)"
    then obtain a0 where a0: "audioRef w = Some a0" by blast
    from h have ne: "rangeValue (sliderMax (duration (st w))) s \<noteq> startTime (st w)"
      using slide_startTime[OF assms, of p songData s] by simp
    show "map_option currentTime (audioRef ?w') = Some (startTime (st ?w'))"
      using slide_cursor[OF assms a0 ne, of p songData] slide_startTime[OF assms, of p songData s]
      by simp
  qed
  have au: "audioRef w \<noteq> None \<Longrightarrow> audioRef ?w' \<noteq> None"
    by (auto simp: handle.simps Let_def commit_keeps handleStartTimeChange_def
        requestAnimationFrame_def)
  have gr: "graph ?w' = graph w"
    by (auto simp: handle.simps Let_def commit_keeps handleStartTimeChange_def
        requestAnimationFrame_def split: option.splits)
  have e: "audioRef w \<noteq> None \<and> graph w \<longrightarrow>
            map_option currentTime (audioRef (startRecording p (st ?w') ?w')) =
              Some (startTime (st ?w'))"
  proof
    assume h: "audioRef w \<noteq> None \<and> graph w"
    then obtain a1 where a1: "audioRef ?w' = Some a1" using au by blast
    from h have "graph ?w'" by (simp add: gr)
    from startRecording_cursor[OF a1 this] show
      "map_option currentTime (audioRef (startRecording p (st ?w') ?w')) = Some (startTime (st ?w'))" .
  qed
  show ?thesis
    using rp b c d e by (simp add: a sliderMax_max)
qed

text \<open>
  C3 as stated fails: for a track of 40.5 seconds and a requested offset of 20 the clamp
  is 10.5, but the slider's step is 1 and the offset stored and used as cursor is 10.
\<close>

theorem start_offset_counterexample:
  "startTime (st (handle webmPlatform demoSong (Slide 20)
      (run webmPlatform demoSong [LoadedMetadata (81 / 2)] (mount demoSong 0)))) = 10
   \<and> map_option currentTime (audioRef (handle webmPlatform demoSong (Slide 20)
      (run webmPlatform demoSong [LoadedMetadata (81 / 2)] (mount demoSong 0)))) = Some 10
   \<and> duration (st (run webmPlatform demoSong [LoadedMetadata (81 / 2)] (mount demoSong 0))) = 81 / 2
   \<and> clamp 20 0 (max 0 (81 / 2 - 30)) = 21 / 2"
  by code_simp

text \<open>C3, an instance: a track of 40 seconds and a requested offset of 20.\<close>

theorem start_offset_applied_witness:
  "\<not> isRecording (st (run webmPlatform demoSong [LoadedMetadata 40] (mount demoSong 0)))
   \<and> duration (st (run webmPlatform demoSong [LoadedMetadata 40] (mount demoSong 0))) = 40
   \<and> clamp 20 0 (max 0 (40 - 30)) = 10
   \<and> startTime (st (handle webmPlatform demoSong (Slide 20)
        (run webmPlatform demoSong [LoadedMetadata 40] (mount demoSong 0)))) = 10
   \<and> map_option currentTime (audioRef (handle webmPlatform demoSong (Slide 20)
        (run webmPlatform demoSong [LoadedMetadata 40] (mount demoSong 0)))) = Some 10"
proof -
  let ?w = "run webmPlatform demoSong [LoadedMetadata 40] (mount demoSong 0)"
  have h: "\<not> isRecording (st ?w)" by code_simp
  have d: "duration (st ?w) = 40" by code_simp
  have s0: "startTime (st ?w) = 0" by code_simp
  have au: "audioRef ?w \<noteq> None" by code_simp
  have cl: "clamp 20 0 (max 0 (40 - 30)) = 10" by (simp add: clamp_def)
  note th = start_offset_applied[OF h, of webmPlatform demoSong 20]
  from th have "clamp 20 0 (max 0 (duration (st ?w) - 30)) \<in> \<int> \<longrightarrow>
     startTime (st (handle webmPlatform demoSong (Slide 20) ?w)) = clamp 20 0 (max 0 (duration (st ?w) - 30))"
    by blast
  then have st: "startTime (st (handle webmPlatform demoSong (Slide 20) ?w)) = 10"
    by (simp add: d clamp_def)
  from th have "audioRef ?w \<noteq> None \<and> startTime (st (handle webmPlatform demoSong (Slide 20) ?w)) \<noteq> startTime (st ?w) \<longrightarrow>
            map_option currentTime (audioRef (handle webmPlatform demoSong (Slide 20) ?w)) =
              Some (startTime (st (handle webmPlatform demoSong (Slide 20) ?w)))"
    by blast
  then have "map_option currentTime (audioRef (handle webmPlatform demoSong (Slide 20) ?w)) = Some 10"
    using au by (simp add: st s0)
  then show ?thesis using h d cl st by simp
qed

section \<open>The start control\<close>

text \<open>
  C4. A start while the controller is recording, finalizing or ready is rejected: the REC
  control, the only caller of \<open>startRecording\<close>, is offered exactly in the idle state (a failed
  start is idle again), and in the other three states a click on it is a no-op that leaves the
  whole state as it was. No other event begins a session either: whenever an event adds a
  recorder, the event is a click on REC and the controller was idle.
\<close>

theorem start_not_offered_while_busy:
  "(offered (st w) RecButton \<longleftrightarrow> captureState w = Idle)
   \<and> (captureState w = Recording \<or> captureState w = Finalizing \<or> captureState w = Ready
        \<longrightarrow> handle p songData (Click RecButton) w = w)
   \<and> (length (recorders (handle p songData e w)) \<noteq> length (recorders w)
        \<longrightarrow> e = Click RecButton \<and> captureState w = Idle)"
proof (intro conjI impI)
  show o: "offered (st w) RecButton \<longleftrightarrow> captureState w = Idle"
    by (auto simp: captureState_def split: option.splits)
  show "handle p songData (Click RecButton) w = w"
    if "captureState w = Recording \<or> captureState w = Finalizing \<or> captureState w = Ready"
    using that by (auto simp: handle.simps captureState_def split: option.splits)
  assume "length (recorders (handle p songData e w)) \<noteq> length (recorders w)"
  from handle_recorders_length[OF this] o
  show "e = Click RecButton" "captureState w = Idle" by simp_all
qed

text \<open>
  C4, instances: a running recording, where a click on REC changes nothing; and the idle
  component with its track loaded, where the click begins the first session.
\<close>

theorem start_not_offered_while_busy_witness:
  "captureState (run webmPlatform demoSong recordingSession (mount demoSong 0)) = Recording
   \<and> \<not> offered (st (run webmPlatform demoSong recordingSession (mount demoSong 0))) RecButton
   \<and> handle webmPlatform demoSong (Click RecButton)
        (run webmPlatform demoSong recordingSession (mount demoSong 0)) =
      run webmPlatform demoSong recordingSession (mount demoSong 0)
   \<and> length (recorders (run webmPlatform demoSong loadedSession (mount demoSong 0))) = 0
   \<and> length (recorders (handle webmPlatform demoSong (Click RecButton)
        (run webmPlatform demoSong loadedSession (mount demoSong 0)))) = 1
   \<and> captureState (run webmPlatform demoSong loadedSession (mount demoSong 0)) = Idle"
proof -
  let ?w = "run webmPlatform demoSong recordingSession (mount demoSong 0)"
  let ?v = "run webmPlatform demoSong loadedSession (mount demoSong 0)"
  have h: "captureState ?w = Recording" by code_simp
  have l0: "length (recorders ?v) = 0" by code_simp
  have l1: "length (recorders (handle webmPlatform demoSong (Click RecButton) ?v)) = 1"
    by code_simp
  from start_not_offered_while_busy[of ?w webmPlatform demoSong "Click RecButton"] h
  have a: "\<not> offered (st ?w) RecButton \<and> handle webmPlatform demoSong (Click RecButton) ?w = ?w"
    by simp
  from start_not_offered_while_busy[of ?v webmPlatform demoSong "Click RecButton"] l0 l1
  have b: "captureState ?v = Idle" by simp
  show ?thesis using h a b l0 l1 by simp
qed

section \<open>Starting a recording\<close>

lemma selected_None: "selectedMimeType p = None \<longleftrightarrow> (\<forall>t\<in>set mimeTypes. \<not> isTypeSupported p t)"
  by (auto simp: selectedMimeType_def find_None_iff)

lemma selected_Some:
  "selectedMimeType p = Some t \<longleftrightarrow>
     (\<exists>pre post. mimeTypes = pre @ t # post \<and> isTypeSupported p t
        \<and> (\<forall>x\<in>set pre. \<not> isTypeSupported p x))"
proof -
  have "selectedMimeType p = Some t \<longleftrightarrow>
     (\<exists>i<length mimeTypes. isTypeSupported p (mimeTypes ! i) \<and> t = mimeTypes ! i
        \<and> (\<forall>j<i. \<not> isTypeSupported p (mimeTypes ! j)))"
    by (simp add: selectedMimeType_def find_Some_iff)
  also have "\<dots> \<longleftrightarrow> (\<exists>pre post. mimeTypes = pre @ t # post \<and> isTypeSupported p t
        \<and> (\<forall>x\<in>set pre. \<not> isTypeSupported p x))"
  proof
    assume "\<exists>i<length mimeTypes. isTypeSupported p (mimeTypes ! i) \<and> t = mimeTypes ! i
        \<and> (\<forall>j<i. \<not> isTypeSupported p (mimeTypes ! j))"
    then obtain i where i: "i < length mimeTypes" "isTypeSupported p (mimeTypes ! i)"
      "t = mimeTypes ! i" "\<forall>j<i. \<not> isTypeSupported p (mimeTypes ! j)" by blast
    have "mimeTypes = take i mimeTypes @ t # drop (Suc i) mimeTypes"
      using i(1,3) by (simp add: id_take_nth_drop)
    moreover have "\<forall>x\<in>set (take i mimeTypes). \<not> isTypeSupported p x"
      using i(1,4) by (auto simp: in_set_conv_nth)
    ultimately show "\<exists>pre post. mimeTypes = pre @ t # post \<and> isTypeSupported p t
        \<and> (\<forall>x\<in>set pre. \<not> isTypeSupported p x)"
      using i(2,3) by blast
  next
    assume "\<exists>pre post. mimeTypes = pre @ t # post \<and> isTypeSupported p t
        \<and> (\<forall>x\<in>set pre. \<not> isTypeSupported p x)"
    then obtain pre post where pp: "mimeTypes = pre @ t # post" "isTypeSupported p t"
      "\<forall>x\<in>set pre. \<not> isTypeSupported p x" by blast
    show "\<exists>i<length mimeTypes. isTypeSupported p (mimeTypes ! i) \<and> t = mimeTypes ! i
        \<and> (\<forall>j<i. \<not> isTypeSupported p (mimeTypes ! j))"
    proof (intro exI[of _ "length pre"] conjI allI impI)
      show "length pre < length mimeTypes" by (simp add: pp(1))
      show "isTypeSupported p (mimeTypes ! length pre)" by (simp add: pp(1,2))
      show "t = mimeTypes ! length pre" by (simp add: pp(1))
      fix j assume "j < length pre"
      then show "\<not> isTypeSupported p (mimeTypes ! j)"
        using pp(3) by (simp add: pp(1) nth_append)
    qed
  qed
  finally show ?thesis .
qed

lemma startRecording_unsupported:
  assumes "selectedMimeType p = None" "audioRef w = Some a" "graph w"
  shows "startRecording p v w =
     w\<lparr>audioRef := Some (a\<lparr>currentTime := startTime v, paused := False\<rparr>),
       st := (st w)\<lparr>isPlaying := False, isRecording := False, recordedVideoUrl := None\<rparr>,
       alerts := alerts w @ [unsupportedAlert]\<rparr>"
  using assms by (simp add: startRecording_def notRecording_def alert_def)

lemma startRecording_closed:
  "audioRef w = None \<or> \<not> graph w \<Longrightarrow> startRecording p v w = w"
  by (auto simp: startRecording_def split: option.splits)

lemma quiet_mount: "quiet (mount songData now)"
  by (simp add: quiet_def mount_def audioEffect_def initialView_def effect_defs split: prod.splits)

lemma quiet_commit: "quiet (commit old w) = quiet w"
  by (simp add: quiet_def commit_keeps)

lemma quiet_documentClick: "quiet (documentClick p w) = quiet w"
  by (simp add: quiet_def gesture_keeps)

lemma quiet_onClick:
  assumes "selectedMimeType p = None" "quiet w"
  shows "quiet (onClick p songData c (st w) w)"
proof (cases c)
  case RecButton
  show ?thesis
  proof (cases "audioRef w = None \<or> \<not> graph w")
    case True
    then show ?thesis using assms(2) RecButton by (simp add: startRecording_closed)
  next
    case False
    then obtain a where a: "audioRef w = Some a" and g: "graph w" by auto
    show ?thesis using assms(2) RecButton
      by (simp add: startRecording_unsupported[OF assms(1) a g] quiet_def)
  qed
next
  case StopButton
  then show ?thesis using assms(2) by (simp add: stopRecording_def quiet_def)
next
  case DownloadButton
  then show ?thesis using assms(2) by (simp add: downloadVideo_def quiet_def)
next
  case NewButton
  then show ?thesis using assms(2) by (simp add: quiet_def)
next
  case PlayButton
  then show ?thesis using assms(2) by (simp add: togglePlay_def quiet_def Let_def split: option.splits)
next
  case BarsButton
  then show ?thesis using assms(2) by (simp add: quiet_def)
next
  case CircleButton
  then show ?thesis using assms(2) by (simp add: quiet_def)
qed

lemma quiet_runCallback: "quiet (runCallback cb w) = quiet w"
  by (cases cb) (simp_all add: quiet_def loop_def effect_defs split: prod.splits)

lemma quiet_callbacks:
  "quiet (foldl (\<lambda>w' (i, cb). runCallback cb w') w cbs) = quiet w"
  by (induction cbs arbitrary: w) (simp_all add: quiet_runCallback split: prod.splits)

lemma quiet_handle:
  assumes "selectedMimeType p = None" "quiet w"
  shows "quiet (handle p songData e w)"
proof (cases e)
  case (Click c)
  then show ?thesis using quiet_onClick[OF assms, of songData c] assms(2)
    by (simp add: handle.simps quiet_commit quiet_documentClick)
next
  case (Slide s)
  then show ?thesis using assms(2)
    by (simp add: handle.simps quiet_commit Let_def)
       (simp add: quiet_def handleStartTimeChange_def requestAnimationFrame_def Let_def
          split: option.splits)
next
  case AnimationFrame
  then show ?thesis using assms(2)
    by (simp add: handle.simps animationFrame_def quiet_callbacks) (simp add: quiet_def)
next
  case (Now t)
  then show ?thesis using assms(2) by (simp add: handle.simps quiet_def)
next
  case IntervalTick
  then show ?thesis using assms(2)
    by (simp add: handle.simps intervalCallback_def stopRecording_def quiet_def Let_def split: option.splits)
next
  case AudioEnded
  then show ?thesis using assms(2)
    by (simp add: handle.simps quiet_commit split: option.splits)
       (simp add: audioOnended_def stopRecording_def quiet_def Let_def)
next
  case (LoadedMetadata d)
  then show ?thesis using assms(2)
    by (simp add: handle.simps quiet_commit)
       (simp add: audioOnloadedmetadata_def quiet_def split: option.splits)
next
  case (DataAvailable i d)
  then show ?thesis using assms(2) by (simp add: handle.simps quiet_def)
next
  case (StopEvent i)
  then show ?thesis using assms(2) by (simp add: handle.simps quiet_def)
qed

lemma quiet_run:
  assumes "selectedMimeType p = None"
  shows "quiet (run p songData es (mount songData now))"
proof (induction es rule: rev_induct)
  case Nil
  show ?case by (simp add: run_def quiet_mount)
next
  case (snoc e es)
  then show ?case using quiet_handle[OF assms] by (simp add: run_def)
qed

text \<open>
  C5. A click on REC, with the audio element and the graph in place, negotiates the format
  over the fixed list \<^const>\<open>mimeTypes\<close>: the type chosen is the first entry the platform
  supports, and it is the type the recorder is constructed with. When that recorder starts,
  it is appended, recording, as the current recorder with an empty chunk buffer; when its
  construction or its start throws, the second alert is shown and the controller is idle.
  On a platform that supports none of the entries no session ever holds a recorder, a chunk
  or an object URL, and the click shows the alert, constructs no recorder, leaves the chunk
  buffer, the object URLs and the timer as they were, and ends idle with REC offered again.
\<close>

theorem start_without_supported_format:
  "(selectedMimeType p = Some t \<longleftrightarrow>
      (\<exists>pre post. mimeTypes = pre @ t # post \<and> isTypeSupported p t
         \<and> (\<forall>x\<in>set pre. \<not> isTypeSupported p x)))
   \<and> (mimeTypes = before @ t # after \<and> isTypeSupported p t
        \<and> (\<forall>x\<in>set before. \<not> isTypeSupported p x)
        \<and> audioRef w \<noteq> None \<and> graph w \<and> offered (st w) RecButton \<longrightarrow>
        (case recorderOutcome p t of
           Started \<Rightarrow>
             recorders (handle p songData (Click RecButton) w) =
               recorders w @ [\<lparr>state = recording, mimeType = t, onstopStartTime = startTime (st w),
                                stopQueued = False, startedAt = clock w, stoppedAt = None\<rparr>]
           \<and> mediaRecorderRef (handle p songData (Click RecButton) w) = Some (length (recorders w))
           \<and> chunksRef (handle p songData (Click RecButton) w) = []
           \<and> alerts (handle p songData (Click RecButton) w) = alerts w
           \<and> captureState (handle p songData (Click RecButton) w) = Recording
         | StartThrows \<Rightarrow>
             recorders (handle p songData (Click RecButton) w) =
               recorders w @ [\<lparr>state = inactive, mimeType = t, onstopStartTime = startTime (st w),
                                stopQueued = False, startedAt = 0, stoppedAt = None\<rparr>]
           \<and> alerts (handle p songData (Click RecButton) w) = alerts w @ [startErrorAlert]
           \<and> captureState (handle p songData (Click RecButton) w) = Idle
         | ConstructorThrows \<Rightarrow>
             recorders (handle p songData (Click RecButton) w) = recorders w
           \<and> alerts (handle p songData (Click RecButton) w) = alerts w @ [startErrorAlert]
           \<and> captureState (handle p songData (Click RecButton) w) = Idle))
   \<and> ((\<forall>x\<in>set mimeTypes. \<not> isTypeSupported p x) \<longrightarrow>
        recorders (run p songData es (mount songData now)) = []
        \<and> chunksRef (run p songData es (mount songData now)) = []
        \<and> objectUrls (run p songData es (mount songData now)) = []
        \<and> (audioRef w \<noteq> None \<and> graph w \<and> offered (st w) RecButton \<longrightarrow>
             alerts (handle p songData (Click RecButton) w) = alerts w @ [unsupportedAlert]
           \<and> recorders (handle p songData (Click RecButton) w) = recorders w
           \<and> mediaRecorderRef (handle p songData (Click RecButton) w) = mediaRecorderRef w
           \<and> chunksRef (handle p songData (Click RecButton) w) = chunksRef w
           \<and> objectUrls (handle p songData (Click RecButton) w) = objectUrls w
           \<and> interval (handle p songData (Click RecButton) w) = interval w
           \<and> captureState (handle p songData (Click RecButton) w) = Idle
           \<and> offered (st (handle p songData (Click RecButton) w)) RecButton))"
proof (intro conjI impI)
  show "selectedMimeType p = Some t \<longleftrightarrow>
      (\<exists>pre post. mimeTypes = pre @ t # post \<and> isTypeSupported p t
         \<and> (\<forall>x\<in>set pre. \<not> isTypeSupported p x))"
    by (rule selected_Some)
next
  assume h: "mimeTypes = before @ t # after \<and> isTypeSupported p t
        \<and> (\<forall>x\<in>set before. \<not> isTypeSupported p x)
        \<and> audioRef w \<noteq> None \<and> graph w \<and> offered (st w) RecButton"
  then have s: "selectedMimeType p = Some t" unfolding selected_Some by blast
  from h have "offered (st w) RecButton" "audioRef w \<noteq> None" "graph w" by simp_all
  then show "case recorderOutcome p t of
           Started \<Rightarrow>
             recorders (handle p songData (Click RecButton) w) =
               recorders w @ [\<lparr>state = recording, mimeType = t, onstopStartTime = startTime (st w),
                                stopQueued = False, startedAt = clock w, stoppedAt = None\<rparr>]
           \<and> mediaRecorderRef (handle p songData (Click RecButton) w) = Some (length (recorders w))
           \<and> chunksRef (handle p songData (Click RecButton) w) = []
           \<and> alerts (handle p songData (Click RecButton) w) = alerts w
           \<and> captureState (handle p songData (Click RecButton) w) = Recording
         | StartThrows \<Rightarrow>
             recorders (handle p songData (Click RecButton) w) =
               recorders w @ [\<lparr>state = inactive, mimeType = t, onstopStartTime = startTime (st w),
                                stopQueued = False, startedAt = 0, stoppedAt = None\<rparr>]
           \<and> alerts (handle p songData (Click RecButton) w) = alerts w @ [startErrorAlert]
           \<and> captureState (handle p songData (Click RecButton) w) = Idle
         | ConstructorThrows \<Rightarrow>
             recorders (handle p songData (Click RecButton) w) = recorders w
           \<and> alerts (handle p songData (Click RecButton) w) = alerts w @ [startErrorAlert]
           \<and> captureState (handle p songData (Click RecButton) w) = Idle"
    using s by (rule click_rec_outcome)
next
  assume "\<forall>x\<in>set mimeTypes. \<not> isTypeSupported p x"
  then have none: "selectedMimeType p = None" by (simp add: selected_None)
  from quiet_run[OF none, of songData es now]
  show "recorders (run p songData es (mount songData now)) = []"
    "chunksRef (run p songData es (mount songData now)) = []"
    "objectUrls (run p songData es (mount songData now)) = []"
    by (simp_all add: quiet_def)
  assume h: "audioRef w \<noteq> None \<and> graph w \<and> offered (st w) RecButton"
  then obtain a where a: "audioRef w = Some a" by blast
  from h have g: "graph w" and o: "offered (st w) RecButton" by simp_all
  note sr = startRecording_unsupported[OF none a g]
  from o have nr: "\<not> isRecording (st w)" by simp
  show "alerts (handle p songData (Click RecButton) w) = alerts w @ [unsupportedAlert]"
    "recorders (handle p songData (Click RecButton) w) = recorders w"
    "mediaRecorderRef (handle p songData (Click RecButton) w) = mediaRecorderRef w"
    "chunksRef (handle p songData (Click RecButton) w) = chunksRef w"
    "objectUrls (handle p songData (Click RecButton) w) = objectUrls w"
    "interval (handle p songData (Click RecButton) w) = interval w"
    "captureState (handle p songData (Click RecButton) w) = Idle"
    "offered (st (handle p songData (Click RecButton) w)) RecButton"
    using o nr
    by (simp_all add: handle.simps sr commit_keeps commit_interval gesture_keeps captureState_def)
qed

lemma noRecorder_none: "\<forall>x\<in>set mimeTypes. \<not> isTypeSupported noRecorderPlatform x"
  by (simp add: noRecorderPlatform_def)

text \<open>
  C5, instances: a platform without any supported type, after the first click; and a
  platform that supports the second and third entries only, where the click constructs and
  starts a recorder of the second entry's type.
\<close>

theorem start_without_supported_format_witness:
  "filter (isTypeSupported noRecorderPlatform) mimeTypes = []
   \<and> audioRef (run noRecorderPlatform demoSong [Click PlayButton] (mount demoSong 0)) \<noteq> None
   \<and> graph (run noRecorderPlatform demoSong [Click PlayButton] (mount demoSong 0))
   \<and> offered (st (run noRecorderPlatform demoSong [Click PlayButton] (mount demoSong 0))) RecButton
   \<and> alerts (handle noRecorderPlatform demoSong (Click RecButton)
        (run noRecorderPlatform demoSong [Click PlayButton] (mount demoSong 0))) = [unsupportedAlert]
   \<and> recorders (handle noRecorderPlatform demoSong (Click RecButton)
        (run noRecorderPlatform demoSong [Click PlayButton] (mount demoSong 0))) = []
   \<and> chunksRef (handle noRecorderPlatform demoSong (Click RecButton)
        (run noRecorderPlatform demoSong [Click PlayButton] (mount demoSong 0))) = []
   \<and> captureState (handle noRecorderPlatform demoSong (Click RecButton)
        (run noRecorderPlatform demoSong [Click PlayButton] (mount demoSong 0))) = Idle
   \<and> selectedMimeType webmPlatform = Some (js ''video/webm;codecs=vp8'')
   \<and> (\<exists>pre post. mimeTypes = pre @ js ''video/webm;codecs=vp8'' # post
         \<and> isTypeSupported webmPlatform (js ''video/webm;codecs=vp8'')
         \<and> (\<forall>x\<in>set pre. \<not> isTypeSupported webmPlatform x))
   \<and> mimeTypes = [js ''video/webm;codecs=vp9''] @ js ''video/webm;codecs=vp8'' #
        [js ''video/webm'', js ''video/mp4'']
   \<and> \<not> isTypeSupported webmPlatform (js ''video/webm;codecs=vp9'')
   \<and> recorderOutcome webmPlatform (js ''video/webm;codecs=vp8'') = Started
   \<and> audioRef (run webmPlatform demoSong loadedSession (mount demoSong 0)) \<noteq> None
   \<and> graph (run webmPlatform demoSong loadedSession (mount demoSong 0))
   \<and> offered (st (run webmPlatform demoSong loadedSession (mount demoSong 0))) RecButton
   \<and> recorders (handle webmPlatform demoSong (Click RecButton)
        (run webmPlatform demoSong loadedSession (mount demoSong 0))) =
       [\<lparr>state = recording, mimeType = js ''video/webm;codecs=vp8'', onstopStartTime = 0,
         stopQueued = False, startedAt = 0, stoppedAt = None\<rparr>]
   \<and> mediaRecorderRef (handle webmPlatform demoSong (Click RecButton)
        (run webmPlatform demoSong loadedSession (mount demoSong 0))) = Some 0
   \<and> captureState (handle webmPlatform demoSong (Click RecButton)
        (run webmPlatform demoSong loadedSession (mount demoSong 0))) = Recording"
proof -
  let ?w = "run noRecorderPlatform demoSong [Click PlayButton] (mount demoSong 0)"
  let ?v = "run webmPlatform demoSong loadedSession (mount demoSong 0)"
  let ?t = "js ''video/webm;codecs=vp8''"
  have h1: "audioRef ?w \<noteq> None" by code_simp
  have h2: "graph ?w" by code_simp
  have h3: "offered (st ?w) RecButton" by code_simp
  have e1: "alerts ?w = []" by code_simp
  have e2: "recorders ?w = []" by code_simp
  have e3: "chunksRef ?w = []" by code_simp
  have s: "selectedMimeType webmPlatform = Some ?t" by code_simp
  from start_without_supported_format[of noRecorderPlatform "js ''video/webm''" "[]" "[]" ?w
      demoSong "[]" 0]
    noRecorder_none h1 h2 h3
  have a: "alerts (handle noRecorderPlatform demoSong (Click RecButton) ?w) = alerts ?w @ [unsupportedAlert]
     \<and> recorders (handle noRecorderPlatform demoSong (Click RecButton) ?w) = recorders ?w
     \<and> chunksRef (handle noRecorderPlatform demoSong (Click RecButton) ?w) = chunksRef ?w
     \<and> captureState (handle noRecorderPlatform demoSong (Click RecButton) ?w) = Idle"
    by blast
  have m: "mimeTypes = [js ''video/webm;codecs=vp9''] @ ?t # [js ''video/webm'', js ''video/mp4'']"
    by (simp add: mimeTypes_def)
  have ts: "isTypeSupported webmPlatform ?t" by (simp add: webmPlatform_def)
  have tn: "\<not> isTypeSupported webmPlatform (js ''video/webm;codecs=vp9'')" by code_simp
  then have tb: "\<forall>x\<in>set [js ''video/webm;codecs=vp9'']. \<not> isTypeSupported webmPlatform x"
    by simp
  have ro: "recorderOutcome webmPlatform ?t = Started" by (simp add: webmPlatform_def)
  have g1: "audioRef ?v \<noteq> None" by code_simp
  have g2: "graph ?v" by code_simp
  have g3: "offered (st ?v) RecButton" by code_simp
  have f1: "recorders ?v = []" by code_simp
  have f2: "startTime (st ?v) = 0" by code_simp
  have f3: "clock ?v = 0" by code_simp
  note inst = start_without_supported_format[of webmPlatform ?t "[js ''video/webm;codecs=vp9'']"
      "[js ''video/webm'', js ''video/mp4'']" ?v demoSong "[]" 0]
  from inst s
  have b: "\<exists>pre post. mimeTypes = pre @ ?t # post \<and> isTypeSupported webmPlatform ?t
         \<and> (\<forall>x\<in>set pre. \<not> isTypeSupported webmPlatform x)"
    by blast
  from inst m ts tb g1 g2 g3
  have "case recorderOutcome webmPlatform ?t of
           Started \<Rightarrow>
             recorders (handle webmPlatform demoSong (Click RecButton) ?v) =
               recorders ?v @ [\<lparr>state = recording, mimeType = ?t, onstopStartTime = startTime (st ?v),
                                stopQueued = False, startedAt = clock ?v, stoppedAt = None\<rparr>]
           \<and> mediaRecorderRef (handle webmPlatform demoSong (Click RecButton) ?v) =
               Some (length (recorders ?v))
           \<and> chunksRef (handle webmPlatform demoSong (Click RecButton) ?v) = []
           \<and> alerts (handle webmPlatform demoSong (Click RecButton) ?v) = alerts ?v
           \<and> captureState (handle webmPlatform demoSong (Click RecButton) ?v) = Recording
         | StartThrows \<Rightarrow>
             recorders (handle webmPlatform demoSong (Click RecButton) ?v) =
               recorders ?v @ [\<lparr>state = inactive, mimeType = ?t, onstopStartTime = startTime (st ?v),
                                stopQueued = False, startedAt = 0, stoppedAt = None\<rparr>]
           \<and> alerts (handle webmPlatform demoSong (Click RecButton) ?v) = alerts ?v @ [startErrorAlert]
           \<and> captureState (handle webmPlatform demoSong (Click RecButton) ?v) = Idle
         | ConstructorThrows \<Rightarrow>
             recorders (handle webmPlatform demoSong (Click RecButton) ?v) = recorders ?v
           \<and> alerts (handle webmPlatform demoSong (Click RecButton) ?v) = alerts ?v @ [startErrorAlert]
           \<and> captureState (handle webmPlatform demoSong (Click RecButton) ?v) = Idle"
    by blast
  then have c: "recorders (handle webmPlatform demoSong (Click RecButton) ?v) =
        [\<lparr>state = recording, mimeType = ?t, onstopStartTime = 0,
          stopQueued = False, startedAt = 0, stoppedAt = None\<rparr>]
      \<and> mediaRecorderRef (handle webmPlatform demoSong (Click RecButton) ?v) = Some 0
      \<and> captureState (handle webmPlatform demoSong (Click RecButton) ?v) = Recording"
    by (simp add: ro f1 f2 f3)
  have n: "filter (isTypeSupported noRecorderPlatform) mimeTypes = []"
    using noRecorder_none by (simp add: filter_empty_conv)
  from a have a': "alerts (handle noRecorderPlatform demoSong (Click RecButton) ?w) = [unsupportedAlert]
     \<and> recorders (handle noRecorderPlatform demoSong (Click RecButton) ?w) = []
     \<and> chunksRef (handle noRecorderPlatform demoSong (Click RecButton) ?w) = []
     \<and> captureState (handle noRecorderPlatform demoSong (Click RecButton) ?w) = Idle"
    by (simp add: e1 e2 e3)
  show ?thesis
    by (intro conjI) (use a' b c s h1 h2 h3 n m tn ro g1 g2 g3 in blast)+
qed

section \<open>The previous output\<close>




section \<open>Properties of the frame renderer\<close>

lemma getByteFrequencyData_zeroFrame: "getByteFrequencyData zeroFrame = zeroFrame"
  by (simp add: getByteFrequencyData_def zeroFrame_def)

lemma drawBarsFrom_silent:
  "\<forall>i\<in>set is. real (unat (dataArray ! i)) = 0 \<Longrightarrow>
     painted (drawBarsFrom dataArray bufferLength barWidth x is) = []"
  by (induction "is" arbitrary: x) (simp_all add: painted_def Let_def)

lemma zeroFrame_nth: "i < frequencyBinCount \<Longrightarrow> zeroFrame ! i = 0"
  by (simp add: zeroFrame_def)

lemma drawBars_zeroFrame: "painted (drawBars zeroFrame frequencyBinCount) = []"
  unfolding drawBars_def Let_def
  by (rule drawBarsFrom_silent) (simp add: zeroFrame_nth)

lemma dataIndex_in_range:
  assumes "i < 120"
  shows "nat \<lfloor>real i * (real frequencyBinCount / 2) / 120\<rfloor> < frequencyBinCount"
proof -
  define x where "x = real i * (real frequencyBinCount / 2) / 120"
  have "x < 64"
    using assms by (simp add: x_def frequencyBinCount_def)
  then have "nat \<lfloor>x\<rfloor> < 128" by linarith
  then show ?thesis unfolding x_def frequencyBinCount_def .
qed

lemma circleTick_zeroFrame:
  "i < 120 \<Longrightarrow> \<not> paints (circleTick zeroFrame frequencyBinCount i)"
  using zeroFrame_nth[OF dataIndex_in_range, of i]
  by (simp add: circleTick_def Let_def)

lemma drawCircle_zeroFrame: "painted (drawCircle zeroFrame frequencyBinCount) = [centerCircle]"
proof -
  have "filter paints (map (circleTick zeroFrame frequencyBinCount) [0..<120]) = []"
    by (simp add: filter_empty_conv circleTick_zeroFrame)
  then show ?thesis by (simp add: drawCircle_def painted_def centerCircle_def)
qed

lemma painted_append: "painted (a @ b) = painted a @ painted b"
  by (simp add: painted_def)

lemma centerCircle_not_background: "centerCircle \<notin> set (drawBackground pf visualData)"
  by (auto simp: drawBackground_def centerCircle_def drawImageCover_def Let_def
      split: option.splits if_splits)

lemma centerCircle_not_text: "centerCircle \<notin> set (drawText pf songData visualData)"
  by (auto simp: drawText_def centerCircle_def titleText_def captionLine_def Let_def)

lemma centerCircle_not_progress: "centerCircle \<notin> set (progressBar audio)"
  by (auto simp: progressBar_def centerCircle_def Let_def split: option.splits if_splits)

lemma paints_centerCircle: "paints centerCircle"
  by (simp add: centerCircle_def)

lemma drawVisualizer_closed:
  "drawVisualizer pf songData visualData m None audio =
     drawBackground pf visualData @ drawText pf songData visualData @ progressBar audio"
  by (simp add: drawVisualizer_def)

lemma drawVisualizer_zero_bars:
  "painted (drawVisualizer pf songData visualData Bars (Some zeroFrame) audio) =
     painted (drawVisualizer pf songData visualData Bars None audio)"
  by (simp add: drawVisualizer_def Let_def painted_append getByteFrequencyData_zeroFrame
      drawBars_zeroFrame)

lemma drawVisualizer_zero_circle:
  "painted (drawVisualizer pf songData visualData Circle (Some zeroFrame) audio) =
     painted (drawBackground pf visualData @ drawText pf songData visualData) @
     [centerCircle] @ painted (progressBar audio)"
  by (simp add: drawVisualizer_def Let_def painted_append getByteFrequencyData_zeroFrame
      drawCircle_zeroFrame)

lemma centerCircle_not_closed:
  "centerCircle \<notin> set (drawVisualizer pf songData visualData m None audio)"
  by (simp add: drawVisualizer_closed centerCircle_not_background centerCircle_not_text
      centerCircle_not_progress)

lemma frameOf_closed:
  "\<not> graph w \<Longrightarrow>
     frameOf pf songData visualData spectrum v w =
     drawVisualizer pf songData visualData (visualizerMode v) None
       (map_option (\<lambda>a. (currentTime a, mediaDuration a)) (audioRef w))"
  by (simp add: frameOf_def)

text \<open>
  C6 (as amended). While the analysis graph is not open the visualization step is skipped:
  the frame is the background, the title, the caption lines and the progress bar, with
  no ring. In bars mode it paints what the all-zero frame paints. In radial mode the
  all-zero frame paints the ring as well, between the text and the progress bar.
\<close>

theorem frame_without_graph:
  assumes "\<not> graph w"
  shows "frameOf pf songData visualData spectrum v w =
           drawBackground pf visualData @ drawText pf songData visualData @
           progressBar (map_option (\<lambda>a. (currentTime a, mediaDuration a)) (audioRef w))
         \<and> titleText songData \<in> set (frameOf pf songData visualData spectrum v w)
         \<and> centerCircle \<notin> set (frameOf pf songData visualData spectrum v w)
         \<and> (visualizerMode v = Bars \<longrightarrow>
              painted (frameOf pf songData visualData spectrum v w) =
              painted (drawVisualizer pf songData visualData Bars (Some zeroFrame)
                (map_option (\<lambda>a. (currentTime a, mediaDuration a)) (audioRef w))))
         \<and> (visualizerMode v = Circle \<longrightarrow>
              painted (drawVisualizer pf songData visualData Circle (Some zeroFrame)
                (map_option (\<lambda>a. (currentTime a, mediaDuration a)) (audioRef w))) =
              painted (drawBackground pf visualData @ drawText pf songData visualData) @
              [centerCircle] @
              painted (progressBar (map_option (\<lambda>a. (currentTime a, mediaDuration a)) (audioRef w))))"
proof -
  let ?audio = "map_option (\<lambda>a. (currentTime a, mediaDuration a)) (audioRef w)"
  have f: "frameOf pf songData visualData spectrum v w =
           drawVisualizer pf songData visualData (visualizerMode v) None ?audio"
    using assms by (rule frameOf_closed)
  have "titleText songData \<in> set (drawText pf songData visualData)"
    by (simp add: drawText_def)
  then have t: "titleText songData \<in> set (frameOf pf songData visualData spectrum v w)"
    by (simp add: f drawVisualizer_closed)
  have c: "centerCircle \<notin> set (frameOf pf songData visualData spectrum v w)"
    by (simp add: f centerCircle_not_closed)
  have b: "visualizerMode v = Bars \<longrightarrow>
              painted (frameOf pf songData visualData spectrum v w) =
              painted (drawVisualizer pf songData visualData Bars (Some zeroFrame) ?audio)"
    by (simp add: f drawVisualizer_zero_bars)
  show ?thesis
    using t c b by (simp add: f drawVisualizer_closed drawVisualizer_zero_circle)
qed

lemma mount_graph: "\<not> graph (mount songData now)"
  by (simp add: mount_def schedulerEffect_def canvasEffect_def timerEffect_def audioEffect_def
      requestAnimationFrame_def cancelAnimationFrame_def drawVisualizerCall_def Let_def
      initialView_def split: prod.splits)

text \<open>
  C6 as stated fails in radial mode: the all-zero frame has the ring outline, the frame
  drawn without a graph has not.
\<close>

theorem frame_without_graph_counterexample:
  "centerCircle \<in> set (painted (drawVisualizer demoCanvas demoSong demoVisual Circle (Some zeroFrame)
      (map_option (\<lambda>a. (currentTime a, mediaDuration a)) (audioRef (mount demoSong 0)))))
   \<and> centerCircle \<notin> set (painted (frameOf demoCanvas demoSong demoVisual zeroFrame
      (initialView\<lparr>visualizerMode := Circle\<rparr>) (mount demoSong 0)))"
proof -
  have "centerCircle \<notin> set (frameOf demoCanvas demoSong demoVisual zeroFrame
      (initialView\<lparr>visualizerMode := Circle\<rparr>) (mount demoSong 0))"
    by (simp add: frameOf_closed mount_graph centerCircle_not_closed)
  then have "centerCircle \<notin> set (painted (frameOf demoCanvas demoSong demoVisual zeroFrame
      (initialView\<lparr>visualizerMode := Circle\<rparr>) (mount demoSong 0)))"
    by (simp add: painted_def)
  then show ?thesis
    by (simp add: drawVisualizer_zero_circle)
qed

text \<open>C6, an instance: the frame of a freshly mounted editor, before any click.\<close>

theorem frame_without_graph_witness:
  "\<not> graph (mount demoSong 0)
   \<and> frameOf demoCanvas demoSong demoVisual zeroFrame initialView (mount demoSong 0) =
       [FillRect (Css ''#000'') 0 0 540 960,
        FillRect (LinearGradient 0 0 0 960 [(0, ''#1e293b''), (1, ''#0f172a'')]) 0 0 540 960,
        FillRect (Css ''rgba(0, 0, 0, 0.5)'') 0 0 540 960,
        FillText ''bold 36px Inter'' (Css ''#ffffff'') 10 (js ''Night  Drive'') 270 400,
        FillText ''22px Inter'' (Css ''#e2e8f0'') 10 (js ''ab cd '') 270 580]
   \<and> painted (drawVisualizer demoCanvas demoSong demoVisual Bars (Some zeroFrame)
        (map_option (\<lambda>a. (currentTime a, mediaDuration a)) (audioRef (mount demoSong 0)))) =
      frameOf demoCanvas demoSong demoVisual zeroFrame initialView (mount demoSong 0)"
proof -
  have g: "\<not> graph (mount demoSong 0)" by (rule mount_graph)
  have a: "audioRef (mount demoSong 0) = Some \<lparr>currentTime = 0, paused = True, mediaDuration = None\<rparr>"
    by (simp add: mount_def schedulerEffect_def canvasEffect_def timerEffect_def audioEffect_def
      requestAnimationFrame_def cancelAnimationFrame_def drawVisualizerCall_def Let_def
      initialView_def demoSong_def js_def split: prod.splits)
  have sp: "split space (js ''ab cd'') = [js ''ab'', js ''cd'']"
    by (simp add: split.simps js_def space_def)
  have pb: "progressBar (map_option (\<lambda>a. (currentTime a, mediaDuration a))
              (audioRef (mount demoSong 0))) = []"
    by (simp add: a progressBar_def)
  have bg: "drawBackground demoCanvas demoVisual =
       [FillRect (Css ''#000'') 0 0 540 960,
        FillRect (LinearGradient 0 0 0 960 [(0, ''#1e293b''), (1, ''#0f172a'')]) 0 0 540 960,
        FillRect (Css ''rgba(0, 0, 0, 0.5)'') 0 0 540 960]"
    by (simp add: drawBackground_def demoVisual_def CANVAS_WIDTH_def CANVAS_HEIGHT_def)
  have tx: "drawText demoCanvas demoSong demoVisual =
       [FillText ''bold 36px Inter'' (Css ''#ffffff'') 10 (js ''Night  Drive'') 270 400,
        FillText ''22px Inter'' (Css ''#e2e8f0'') 10 (js ''ab cd '') 270 580]"
    by (simp add: drawText_def demoVisual_def demoSong_def
        demoCanvas_def titleText_def captionLine_def CANVAS_WIDTH_def CANVAS_HEIGHT_def
        wrapText_def sp Let_def)
       (simp add: fixedPitch_def js_def space_def)
  have f: "drawBackground demoCanvas demoVisual @ drawText demoCanvas demoSong demoVisual @
           progressBar (map_option (\<lambda>a. (currentTime a, mediaDuration a)) (audioRef (mount demoSong 0))) =
       [FillRect (Css ''#000'') 0 0 540 960,
        FillRect (LinearGradient 0 0 0 960 [(0, ''#1e293b''), (1, ''#0f172a'')]) 0 0 540 960,
        FillRect (Css ''rgba(0, 0, 0, 0.5)'') 0 0 540 960,
        FillText ''bold 36px Inter'' (Css ''#ffffff'') 10 (js ''Night  Drive'') 270 400,
        FillText ''22px Inter'' (Css ''#e2e8f0'') 10 (js ''ab cd '') 270 580]"
    by (simp only: pb bg tx append.simps)
  have v: "visualizerMode initialView = Bars" by (simp add: initialView_def)
  note th = frame_without_graph[OF g, of demoCanvas demoSong demoVisual zeroFrame initialView]
  from th f have fr: "frameOf demoCanvas demoSong demoVisual zeroFrame initialView (mount demoSong 0) =
       [FillRect (Css ''#000'') 0 0 540 960,
        FillRect (LinearGradient 0 0 0 960 [(0, ''#1e293b''), (1, ''#0f172a'')]) 0 0 540 960,
        FillRect (Css ''rgba(0, 0, 0, 0.5)'') 0 0 540 960,
        FillText ''bold 36px Inter'' (Css ''#ffffff'') 10 (js ''Night  Drive'') 270 400,
        FillText ''22px Inter'' (Css ''#e2e8f0'') 10 (js ''ab cd '') 270 580]"
    by simp
  from th v have "painted (frameOf demoCanvas demoSong demoVisual zeroFrame initialView (mount demoSong 0)) =
      painted (drawVisualizer demoCanvas demoSong demoVisual Bars (Some zeroFrame)
        (map_option (\<lambda>a. (currentTime a, mediaDuration a)) (audioRef (mount demoSong 0))))"
    by blast
  then have "painted (drawVisualizer demoCanvas demoSong demoVisual Bars (Some zeroFrame)
        (map_option (\<lambda>a. (currentTime a, mediaDuration a)) (audioRef (mount demoSong 0)))) =
      painted (frameOf demoCanvas demoSong demoVisual zeroFrame initialView (mount demoSong 0))"
    by (rule sym)
  also have "\<dots> = frameOf demoCanvas demoSong demoVisual zeroFrame initialView (mount demoSong 0)"
    by (simp add: fr painted_def)
  finally show ?thesis using g fr by simp
qed

section \<open>Properties of the word wrap\<close>

lemma wrapLines_loop:
  "wrapLines metric maxWidth text =
     map fst (wrapLoop metric maxWidth 30 (split space text) 0 [] 580)"
  by (simp add: wrapLines_def wrapText_def comp_def case_prod_beta)

lemma split_not_Nil: "split c s \<noteq> []"
  by (subst split.simps) (simp split: list.splits)

lemma joinWith_Cons: "ls \<noteq> [] \<Longrightarrow> joinWith c (l # ls) = l @ c # joinWith c ls"
  by (cases ls) simp_all

lemma joinWith_split: "joinWith c (split c s) = s"
proof (induction c s rule: split.induct)
  case (1 c s)
  show ?case
  proof (cases "dropWhile (\<lambda>x. x \<noteq> c) s")
    case Nil
    then have "takeWhile (\<lambda>x. x \<noteq> c) s = s" by (simp add: takeWhile_eq_all_conv)
    then show ?thesis by (subst split.simps) (simp only: Nil list.case joinWith.simps)
  next
    case (Cons x rest)
    then have xc: "x = c" using hd_dropWhile[of "\<lambda>x. x \<noteq> c" s] by fastforce
    have "joinWith c (split c s) = takeWhile (\<lambda>x. x \<noteq> c) s @ c # joinWith c (split c rest)"
      by (subst split.simps) (simp add: Cons joinWith_Cons split_not_Nil)
    also have "\<dots> = takeWhile (\<lambda>x. x \<noteq> c) s @ dropWhile (\<lambda>x. x \<noteq> c) s"
      using "1.IH"[OF Cons] by (simp add: Cons xc)
    finally show ?thesis by simp
  qed
qed

lemma tokensFrom_sep:
  "isWhiteSpace c \<Longrightarrow> tokensFrom cur (a @ c # b) = tokensFrom cur a @ tokensFrom [] b"
  by (induction a arbitrary: cur) simp_all

lemma isWhiteSpace_space: "isWhiteSpace space"
  by (simp add: isWhiteSpace_def space_def)

lemma collapsed_sep: "collapsed (a @ space # b) = collapsed a @ collapsed b"
  by (simp add: collapsed_def tokensFrom_sep isWhiteSpace_space)

lemma collapsed_Nil: "collapsed [] = []"
  by (simp add: collapsed_def)

lemma collapsed_glue: "collapsed (glue g) = concat (map collapsed g)"
  by (induction g) (simp_all add: glue_def collapsed_sep collapsed_Nil)

lemma collapsed_joinWith: "collapsed (joinWith space ls) = concat (map collapsed ls)"
  by (induction space ls rule: joinWith.induct) (simp_all add: collapsed_sep collapsed_Nil)

lemma glue_snoc: "glue (g @ [w]) = glue g @ w @ [space]"
  by (simp add: glue_def)

lemma wrapLoop_groups:
  assumes "n = 0 \<longrightarrow> g = []" and "n > 0 \<longrightarrow> g \<noteq> []"
    and "metric (glue g) \<le> maxWidth \<or> length g \<le> 1"
  shows "\<exists>gs. map fst (wrapLoop metric maxWidth lineHeight ws n (glue g) y) = map glue gs
            \<and> concat gs = g @ ws
            \<and> gs \<noteq> [] \<and> (\<exists>t. hd gs = g @ t)
            \<and> (\<forall>x\<in>set gs. metric (glue x) \<le> maxWidth \<or> length x \<le> 1)
            \<and> breaksGreedy metric maxWidth gs
            \<and> (g @ ws \<noteq> [] \<longrightarrow> [] \<notin> set gs)"
  using assms
proof (induction ws arbitrary: n g y)
  case Nil
  show ?case by (rule exI[of _ "[g]"]) (use Nil in simp)
next
  case (Cons w ws)
  let ?test = "glue g @ w @ [space]"
  show ?case
  proof (cases "metric ?test > maxWidth \<and> n > 0")
    case True
    have "\<exists>gs. map fst (wrapLoop metric maxWidth lineHeight ws (n + 1) (glue [w]) (y + lineHeight)) = map glue gs
            \<and> concat gs = [w] @ ws
            \<and> gs \<noteq> [] \<and> (\<exists>t. hd gs = [w] @ t)
            \<and> (\<forall>x\<in>set gs. metric (glue x) \<le> maxWidth \<or> length x \<le> 1)
            \<and> breaksGreedy metric maxWidth gs
            \<and> ([w] @ ws \<noteq> [] \<longrightarrow> [] \<notin> set gs)"
      by (rule Cons.IH) simp_all
    then obtain gs t where gs:
      "map fst (wrapLoop metric maxWidth lineHeight ws (n + 1) (glue [w]) (y + lineHeight)) = map glue gs"
      "concat gs = [w] @ ws" "gs \<noteq> []" "hd gs = [w] @ t"
      "\<forall>x\<in>set gs. metric (glue x) \<le> maxWidth \<or> length x \<le> 1"
      "breaksGreedy metric maxWidth gs" "[] \<notin> set gs"
      by auto
    from gs(3,4) obtain rest where gsr: "gs = (w # t) # rest" by (cases gs) auto
    have w1: "glue [w] = w @ [space]" by (simp add: glue_def)
    show ?thesis
    proof (rule exI[of _ "g # gs"], intro conjI)
      show "map fst (wrapLoop metric maxWidth lineHeight (w # ws) n (glue g) y) = map glue (g # gs)"
        using True gs(1) by (simp add: w1)
      show "concat (g # gs) = g @ w # ws" using gs(2) by simp
      show "g # gs \<noteq> []" by simp
      show "\<exists>t. hd (g # gs) = g @ t" by simp
      show "\<forall>x\<in>set (g # gs). metric (glue x) \<le> maxWidth \<or> length x \<le> 1"
        using gs(5) Cons.prems(3) by simp
      show "breaksGreedy metric maxWidth (g # gs)"
        using gs(6) True by (simp add: gsr glue_snoc)
      show "g @ w # ws \<noteq> [] \<longrightarrow> [] \<notin> set (g # gs)"
        using gs(7) True Cons.prems(2) by auto
    qed
  next
    case False
    have "\<exists>gs. map fst (wrapLoop metric maxWidth lineHeight ws (n + 1) (glue (g @ [w])) y) = map glue gs
            \<and> concat gs = (g @ [w]) @ ws
            \<and> gs \<noteq> [] \<and> (\<exists>t. hd gs = (g @ [w]) @ t)
            \<and> (\<forall>x\<in>set gs. metric (glue x) \<le> maxWidth \<or> length x \<le> 1)
            \<and> breaksGreedy metric maxWidth gs
            \<and> ((g @ [w]) @ ws \<noteq> [] \<longrightarrow> [] \<notin> set gs)"
    proof (rule Cons.IH)
      show "n + 1 = 0 \<longrightarrow> g @ [w] = []" by simp
      show "0 < n + 1 \<longrightarrow> g @ [w] \<noteq> []" by simp
      show "metric (glue (g @ [w])) \<le> maxWidth \<or> length (g @ [w]) \<le> 1"
        using False Cons.prems(1) by (auto simp: glue_snoc)
    qed
    then obtain gs t where gs:
      "map fst (wrapLoop metric maxWidth lineHeight ws (n + 1) (glue (g @ [w])) y) = map glue gs"
      "concat gs = (g @ [w]) @ ws" "gs \<noteq> []" "hd gs = (g @ [w]) @ t"
      "\<forall>x\<in>set gs. metric (glue x) \<le> maxWidth \<or> length x \<le> 1"
      "breaksGreedy metric maxWidth gs" "[] \<notin> set gs"
      by auto
    show ?thesis
    proof (rule exI[of _ gs], intro conjI)
      show "map fst (wrapLoop metric maxWidth lineHeight (w # ws) n (glue g) y) = map glue gs"
        using False gs(1) by (auto simp: glue_snoc)
      show "concat gs = g @ w # ws" using gs(2) by simp
      show "gs \<noteq> []" by (rule gs(3))
      show "\<exists>t. hd gs = g @ t" using gs(4) by simp
      show "\<forall>x\<in>set gs. metric (glue x) \<le> maxWidth \<or> length x \<le> 1" by (rule gs(5))
      show "breaksGreedy metric maxWidth gs" by (rule gs(6))
      show "g @ w # ws \<noteq> [] \<longrightarrow> [] \<notin> set gs" using gs(7) by simp
    qed
  qed
qed

lemma split_no_sep: "w \<in> set (split c s) \<Longrightarrow> c \<notin> set w"
proof (induction c s rule: split.induct)
  case (1 c s)
  have tw: "c \<notin> set (takeWhile (\<lambda>x. x \<noteq> c) s)"
    using set_takeWhileD[of c "\<lambda>x. x \<noteq> c" s] by blast
  show ?case
  proof (cases "dropWhile (\<lambda>x. x \<noteq> c) s")
    case Nil
    from "1.prems" have "w = takeWhile (\<lambda>x. x \<noteq> c) s"
      by (subst (asm) split.simps) (simp only: Nil list.case list.set singleton_iff)
    then show ?thesis using tw by simp
  next
    case (Cons x rest)
    from "1.prems" have "w = takeWhile (\<lambda>x. x \<noteq> c) s \<or> w \<in> set (split c rest)"
      by (subst (asm) split.simps) (simp only: Cons list.case list.set insert_iff)
    then show ?thesis using tw "1.IH"[OF Cons] by blast
  qed
qed

text \<open>
  C7 (as amended). The lines that \<open>wrapText\<close> draws are the words of the text, in
  order and unbroken, each followed by one space, cut into non-empty groups; a group ends
  only where the next word would bring the measured line over the maximum; joining the
  lines with single spaces gives the text back up to whitespace collapsing; and a line
  measures more than the maximum only if it holds a single word (whose width is measured
  together with its trailing space).
\<close>

theorem wrapText_whole_words:
  "\<exists>gs. wrapLines metric maxWidth text = map glue gs
      \<and> concat gs = split space text
      \<and> [] \<notin> set gs
      \<and> breaksGreedy metric maxWidth gs
      \<and> (\<forall>g\<in>set gs. metric (glue g) \<le> maxWidth \<or> length g = 1)
      \<and> collapsed (joinWith space (wrapLines metric maxWidth text)) = collapsed text"
proof -
  have g0: "glue [] = []" by (simp add: glue_def)
  have "\<exists>gs. map fst (wrapLoop metric maxWidth 30 (split space text) 0 (glue []) 580) = map glue gs
            \<and> concat gs = [] @ split space text
            \<and> gs \<noteq> [] \<and> (\<exists>t. hd gs = [] @ t)
            \<and> (\<forall>x\<in>set gs. metric (glue x) \<le> maxWidth \<or> length x \<le> 1)
            \<and> breaksGreedy metric maxWidth gs
            \<and> ([] @ split space text \<noteq> [] \<longrightarrow> [] \<notin> set gs)"
    by (rule wrapLoop_groups) simp_all
  then obtain gs where gs:
    "wrapLines metric maxWidth text = map glue gs"
    "concat gs = split space text"
    "\<forall>x\<in>set gs. metric (glue x) \<le> maxWidth \<or> length x \<le> 1"
    "breaksGreedy metric maxWidth gs" "[] \<notin> set gs"
    by (auto simp: wrapLines_loop g0 split_not_Nil)
  have len: "\<forall>g\<in>set gs. metric (glue g) \<le> maxWidth \<or> length g = 1"
  proof
    fix g assume "g \<in> set gs"
    with gs(3,5) have "metric (glue g) \<le> maxWidth \<or> length g \<le> 1" "g \<noteq> []" by auto
    then show "metric (glue g) \<le> maxWidth \<or> length g = 1"
      by (cases g) auto
  qed
  have "collapsed (joinWith space (map glue gs)) = concat (map collapsed (concat gs))"
    by (induction gs) (simp_all add: collapsed_joinWith collapsed_glue collapsed_Nil)
  also have "\<dots> = collapsed (joinWith space (split space text))"
    by (simp add: gs(2) collapsed_joinWith)
  finally have "collapsed (joinWith space (wrapLines metric maxWidth text)) = collapsed text"
    by (simp add: gs(1) joinWith_split)
  with gs len show ?thesis by blast
qed

text \<open>
  C7 as stated fails: with every character 12 units wide and the maximum 480, a caption
  of one 40-character word is drawn as one line of width 492, although the word itself,
  at 480, is not wider than the maximum.
\<close>

theorem wrapText_width_counterexample:
  "wrapLines fixedPitch 480 word40 = [word40 @ [space]]
   \<and> split space word40 = [word40]
   \<and> fixedPitch (word40 @ [space]) = 492
   \<and> fixedPitch word40 = 480
   \<and> \<not> (\<forall>l\<in>set (wrapLines fixedPitch 480 word40).
          fixedPitch l \<le> 480
          \<or> (\<exists>w\<in>set (split space word40). l = w @ [space] \<and> fixedPitch w > 480))"
proof -
  have sp: "split space word40 = [word40]"
    by (subst split.simps) (simp add: word40_def js_def space_def)
  have wl: "wrapLines fixedPitch 480 word40 = [word40 @ [space]]"
    by (simp add: wrapLines_loop sp)
  have f1: "fixedPitch (word40 @ [space]) = 492" by (simp add: fixedPitch_def word40_def js_def)
  have f2: "fixedPitch word40 = 480" by (simp add: fixedPitch_def word40_def js_def)
  show ?thesis by (simp add: sp wl f1 f2)
qed

text \<open>C7, an instance: a caption with a double space and a word too long for a line.\<close>

theorem wrapText_whole_words_witness:
  "wrapLines fixedPitch 96 (js ''ab cd  efghijklm n'') =
     [js ''ab cd  '', js ''efghijklm '', js ''n '']
   \<and> (\<exists>gs. wrapLines fixedPitch 96 (js ''ab cd  efghijklm n'') = map glue gs
      \<and> concat gs = split space (js ''ab cd  efghijklm n'')
      \<and> [] \<notin> set gs
      \<and> breaksGreedy fixedPitch 96 gs
      \<and> (\<forall>g\<in>set gs. fixedPitch (glue g) \<le> 96 \<or> length g = 1)
      \<and> collapsed (joinWith space (wrapLines fixedPitch 96 (js ''ab cd  efghijklm n''))) =
          collapsed (js ''ab cd  efghijklm n''))"
proof -
  have sp: "split space (js ''ab cd  efghijklm n'') = [js ''ab'', js ''cd'', [], js ''efghijklm'', js ''n'']"
    by (simp add: split.simps js_def space_def)
  have "wrapLines fixedPitch 96 (js ''ab cd  efghijklm n'') =
     [js ''ab cd  '', js ''efghijklm '', js ''n '']"
    by (simp add: wrapLines_loop sp) (simp add: fixedPitch_def js_def space_def)
  then show ?thesis
    using wrapText_whole_words[of fixedPitch 96 "js ''ab cd  efghijklm n''"] by simp
qed

section \<open>The render loop after a pause\<close>

lemma run_append: "run p songData (es @ fs) w = run p songData fs (run p songData es w)"
  by (simp add: run_def)

lemma animationFrame_single_loop:
  assumes "frameRequests w = [(i, Loop v)]" and "isPlaying v \<or> isRecording v"
  shows "animationFrame w =
     w\<lparr>frameRequests := [(nextRequest w, Loop v)], nextRequest := nextRequest w + 1,
       animationFrameRef := nextRequest w, drawn := drawn w @ [visualizerMode v]\<rparr>"
  using assms
  by (simp add: animationFrame_def loop_def requestAnimationFrame_def drawVisualizerCall_def Let_def)

lemma stale_loop_spins:
  assumes "frameRequests w = [(i, Loop v)]" and "isPlaying v \<or> isRecording v"
  shows "st (run p songData (replicate k AnimationFrame) w) = st w
       \<and> (\<exists>j. frameRequests (run p songData (replicate k AnimationFrame) w) = [(j, Loop v)])
       \<and> drawn (run p songData (replicate k AnimationFrame) w) =
           drawn w @ replicate k (visualizerMode v)"
proof (induction k)
  case 0
  show ?case using assms(1) by (simp add: run_def)
next
  case (Suc k)
  let ?w = "run p songData (replicate k AnimationFrame) w"
  from Suc obtain j where j: "frameRequests ?w = [(j, Loop v)]" by blast
  have r: "replicate (Suc k) AnimationFrame = replicate k AnimationFrame @ [AnimationFrame]"
    by (simp add: replicate_append_same)
  have "run p songData (replicate (Suc k) AnimationFrame) w =
          run p songData [AnimationFrame] ?w"
    by (simp only: r run_append)
  also have "\<dots> = animationFrame ?w"
    by (simp add: run_def handle.simps)
  finally have e: "run p songData (replicate (Suc k) AnimationFrame) w = animationFrame ?w" .
  have d: "replicate (Suc k) (visualizerMode v) = replicate k (visualizerMode v) @ [visualizerMode v]"
    by (simp add: replicate_append_same)
  show ?case
    unfolding e d using Suc by (simp add: animationFrame_single_loop[OF j assms(2)])
qed

text \<open>
  Where nothing restarts the loop between play and pause, the pause does settle: one
  frame, and no request left.
\<close>

lemma plain_pause_settles:
  "frameRequests (run webmPlatform demoSong
      [Click PlayButton, LoadedMetadata 200, Click PlayButton, AnimationFrame,
       Click PlayButton, AnimationFrame] (mount demoSong 0)) = []
   \<and> drawn (run webmPlatform demoSong
      [Click PlayButton, LoadedMetadata 200, Click PlayButton, AnimationFrame,
       Click PlayButton, AnimationFrame] (mount demoSong 0)) =
     drawn (run webmPlatform demoSong
      [Click PlayButton, LoadedMetadata 200, Click PlayButton, AnimationFrame,
       Click PlayButton] (mount demoSong 0)) @ [Bars]"
  by code_simp

text \<open>
  A recording that outlives its track leaves a loop behind too: restarted by the track's
  end, it sees \<open>isRecording\<close> for ever, and the end of the recording does not run the
  scheduler effect again.
\<close>

lemma outlived_track_spins:
  "captureState (run webmPlatform demoSong (outlivedSession @ replicate k AnimationFrame)
      (mount demoSong 0)) = Ready
   \<and> \<not> isPlaying (st (run webmPlatform demoSong (outlivedSession @ replicate k AnimationFrame)
      (mount demoSong 0)))
   \<and> frameRequests (run webmPlatform demoSong (outlivedSession @ replicate k AnimationFrame)
      (mount demoSong 0)) \<noteq> []
   \<and> drawn (run webmPlatform demoSong (outlivedSession @ replicate k AnimationFrame)
      (mount demoSong 0)) =
       drawn (run webmPlatform demoSong outlivedSession (mount demoSong 0)) @ replicate k Bars"
proof -
  let ?w = "run webmPlatform demoSong outlivedSession (mount demoSong 0)"
  let ?v = "\<lparr>isPlaying = False, isRecording = True, recordedVideoUrl = None,
             visualizerMode = Bars, startTime = 0, duration = 25\<rparr>"
  have f: "frameRequests ?w = [(6, Loop ?v)]" by code_simp
  have s: "st ?w = \<lparr>isPlaying = False, isRecording = False, recordedVideoUrl = Some 0,
             visualizerMode = Bars, startTime = 0, duration = 25\<rparr>" by code_simp
  have v: "isPlaying ?v \<or> isRecording ?v" by simp
  from stale_loop_spins[OF f v, of webmPlatform demoSong k]
  show ?thesis
    by (auto simp: run_append s captureState_def)
qed

text \<open>
  C8 fails on the code. Play, switch to the radial mode while playing, pause: the loop
  of the render before the switch was never cancelled and still sees \<open>isPlaying\<close>, so
  after the settling frame every further display refresh draws one more frame, in the
  bars mode, while the component is paused, idle and in radial mode.
\<close>

theorem scheduler_spins_after_pause:
  "captureState (run webmPlatform demoSong (pausedSession @ replicate k AnimationFrame)
      (mount demoSong 0)) = Idle
   \<and> \<not> isPlaying (st (run webmPlatform demoSong (pausedSession @ replicate k AnimationFrame)
      (mount demoSong 0)))
   \<and> visualizerMode (st (run webmPlatform demoSong (pausedSession @ replicate k AnimationFrame)
      (mount demoSong 0))) = Circle
   \<and> frameRequests (run webmPlatform demoSong (pausedSession @ replicate k AnimationFrame)
      (mount demoSong 0)) \<noteq> []
   \<and> drawn (run webmPlatform demoSong (pausedSession @ replicate k AnimationFrame)
      (mount demoSong 0)) =
       drawn (run webmPlatform demoSong pausedSession (mount demoSong 0)) @ replicate k Bars"
proof -
  let ?w = "run webmPlatform demoSong pausedSession (mount demoSong 0)"
  let ?v = "\<lparr>isPlaying = True, isRecording = False, recordedVideoUrl = None,
             visualizerMode = Bars, startTime = 0, duration = 200\<rparr>"
  have f: "frameRequests ?w = [(8, Loop ?v)]" by code_simp
  have s: "st ?w = \<lparr>isPlaying = False, isRecording = False, recordedVideoUrl = None,
             visualizerMode = Circle, startTime = 0, duration = 200\<rparr>" by code_simp
  have v: "isPlaying ?v \<or> isRecording ?v" by simp
  from stale_loop_spins[OF f v, of webmPlatform demoSong k]
  show ?thesis
    by (auto simp: run_append s captureState_def)
qed

section \<open>The download\<close>

lemma replaceWhitespace_prefix:
  "\<forall>x\<in>set xs. \<not> isWhiteSpace x \<Longrightarrow> replaceWhitespace (xs @ ys) = xs @ replaceWhitespace ys"
  by (induction xs) simp_all

lemma replaceWhitespace_runs: "replaceWhitespace title = dashedTitle title"
proof (induction title rule: runs.induct)
  case 1
  show ?case by (simp add: dashedTitle_def)
next
  case (2 c cs)
  show ?case
  proof (cases "isWhiteSpace c")
    case True
    then have eq: "(\<lambda>x. isWhiteSpace x = isWhiteSpace c) = isWhiteSpace" by auto
    show ?thesis using 2 True by (simp add: dashedTitle_def eq)
  next
    case False
    then have eq: "(\<lambda>x. isWhiteSpace x = isWhiteSpace c) = (\<lambda>x. \<not> isWhiteSpace x)" by auto
    have "replaceWhitespace (c # cs) =
            replaceWhitespace ((c # takeWhile (\<lambda>x. \<not> isWhiteSpace x) cs) @ dropWhile (\<lambda>x. \<not> isWhiteSpace x) cs)"
      by simp
    also have "\<dots> = (c # takeWhile (\<lambda>x. \<not> isWhiteSpace x) cs) @
                      replaceWhitespace (dropWhile (\<lambda>x. \<not> isWhiteSpace x) cs)"
      by (rule replaceWhitespace_prefix) (use False in \<open>auto dest: set_takeWhileD\<close>)
    finally show ?thesis using 2 False by (simp add: dashedTitle_def eq)
  qed
qed

text \<open>
  C10. A click on the download control of a component that holds the recorded URL
  \<open>href\<close> starts one download, of \<open>href\<close>, named \<open>StatusBeat-\<close>, the title with every
  maximal whitespace run replaced by one dash, and \<open>.webm\<close>; the blob's type plays no part.
\<close>

theorem download_name_webm:
  assumes "recordedVideoUrl (st w) = Some href"
  shows "downloads (handle p songData (Click DownloadButton) w) =
           downloads w @ [(href, js ''StatusBeat-'' @ dashedTitle (name songData) @ js ''.webm'')]"
  using assms
  by (simp add: handle.simps gesture_keeps commit_keeps downloadVideo_def downloadName_def replaceWhitespace_runs)

text \<open>C10, an instance: a recording made on a platform that records only \<open>video/mp4\<close>.\<close>

theorem download_name_webm_witness:
  "recordedVideoUrl (st (run mp4Platform demoSong mp4Session (mount demoSong 0))) = Some 0
   \<and> objectUrls (run mp4Platform demoSong mp4Session (mount demoSong 0)) =
       [([[1, 2, 3]], js ''video/mp4'')]
   \<and> downloads (handle mp4Platform demoSong (Click DownloadButton)
        (run mp4Platform demoSong mp4Session (mount demoSong 0))) =
       [(0, js ''StatusBeat-Night-Drive.webm'')]"
proof -
  let ?w = "run mp4Platform demoSong mp4Session (mount demoSong 0)"
  have h: "recordedVideoUrl (st ?w) = Some 0" by code_simp
  have e1: "objectUrls ?w = [([[1, 2, 3]], js ''video/mp4'')]" by code_simp
  have e2: "downloads ?w = []" by code_simp
  have e3: "js ''StatusBeat-'' @ dashedTitle (name demoSong) @ js ''.webm'' =
            js ''StatusBeat-Night-Drive.webm''" by code_simp
  from download_name_webm[OF h, of mp4Platform demoSong]
  show ?thesis using h e1 by (simp add: e2 e3)
qed

end
